theory Spec2Isabelle
  imports Complex_Main "HOL-Library.Monad_Syntax"
begin

section \<open>Range-image projection and segmentation (image\_projection.cc)\<close>

text \<open>
  A shallow embedding of \<^verbatim>\<open>ImageProjection\<close>. The member variables of the class are
  the fields of the record \<open>state\<close>; every member function takes the state and returns
  the new one. The constants of \<^verbatim>\<open>utility.h\<close> and the command-line flags are not part of
  the source file, so they are the fields of the record \<open>config\<close>. The single and double
  precision numbers of the source are real numbers here (no rounding, no infinities);
  the NaN sentinel point is \<open>None\<close> in a cloud of \<open>point option\<close>. An access outside
  a container (undefined behaviour in C++) is the result \<open>None\<close> of the function that
  performs it.
\<close>

subsection \<open>Constants and configuration\<close>

definition LABEL_INIT :: int where
  "LABEL_INIT = 0"

definition LABEL_INVALID :: int where
  "LABEL_INVALID = 999999"

definition dirs :: "(int \<times> int) list" where
  "dirs = [(-1, 0), (0, 1), (0, -1), (1, 0)]"

definition FLT_MAX :: real where
  "FLT_MAX = 340282346638528859811704183484516925440"

record config =
  N_SCAN :: nat
  HORIZON_SCAN :: nat
  groundScanInd :: nat
  ang_res_x :: real
  ang_res_y :: real
  ang_bottom :: real
  segmentAlphaX :: real
  segmentAlphaY :: real
  segmentTheta :: real
  segmentValidPointNum :: int
  segmentValidLineNum :: int
  use_cloud_ring :: bool
  sensor_minimum_range :: real
  sensor_mount_angle :: real

subsection \<open>Points, clouds and the frame state\<close>

text \<open>A point \<^verbatim>\<open>PointType\<close>; \<open>px\<close>, \<open>py\<close>, \<open>pz\<close> are its members x, y and z.\<close>

record point =
  px :: real
  py :: real
  pz :: real
  intensity :: real

text \<open>The sentinel \<^verbatim>\<open>nan_point\<close>: a slot of a dense cloud that holds no return.\<close>

definition nan_point :: "point option" where
  "nan_point = None"

text \<open>
  Modelled from the spec: \<^verbatim>\<open>IsNaN\<close> is declared in \<^verbatim>\<open>utility.h\<close>, which is not part of the
  source; the spec calls a cell it accepts "empty" (it holds no return).
\<close>

definition IsNaN :: "point option \<Rightarrow> bool" where
  "IsNaN p = (p = None)"

record seg_info =
  startOrientation :: real
  endOrientation :: real
  orientationDiff :: real
  startRingIndex :: "nat \<rightharpoonup> int"
  endRingIndex :: "nat \<rightharpoonup> int"
  segmentedCloudGroundFlag :: "nat \<rightharpoonup> bool"
  segmentedCloudColInd :: "nat \<rightharpoonup> nat"
  segmentedCloudRange :: "nat \<rightharpoonup> real"

datatype message =
  Cloud_msg string real "point option list"
| Info_msg real seg_info

text \<open>
  An incoming \<^verbatim>\<open>drivers::PointCloud\<close> as the conversion \<^verbatim>\<open>ToPclPointCloud\<close> (not part of
  the source) reads it: the points, a point with a NaN coordinate being \<open>None\<close>, the ring
  of each point, the flag \<^verbatim>\<open>is_dense\<close> and the time stamp of the header.
\<close>

record cloud_in =
  msg_points :: "point option list"
  msg_rings :: "nat list"
  msg_is_dense :: bool
  msg_timestamp :: real

datatype error = Check_failed | Undefined_behaviour

record state =
  cloud_header :: real
  laser_cloud_in :: "point list"
  laser_cloud_in_ring :: "nat list"
  full_cloud :: "point option list"
  full_info_cloud :: "point option list"
  ground_cloud :: "point option list"
  segmented_cloud :: "point option list"
  segmented_cloud_pure :: "point option list"
  outlier_cloud :: "point option list"
  range_mat :: "real list"
  ground_mat :: "int list"
  label_mat :: "int list"
  label_count :: int
  all_pushed_indX :: "int list"
  all_pushed_indY :: "int list"
  queue_indX :: "int list"
  queue_indY :: "int list"
  seg_msg :: seg_info
  published :: "message list"

subsection \<open>Containers\<close>

text \<open>
  \<open>rd\<close> and \<open>wr\<close> are \<^verbatim>\<open>operator[]\<close> of a vector, \<open>mat_at\<close> and \<open>mat_set\<close> are
  \<^verbatim>\<open>cv::Mat::at\<close> on a row-major matrix of \<open>N_SCAN\<close> rows and \<open>HORIZON_SCAN\<close> columns.
\<close>

definition rd :: "'a list \<Rightarrow> int \<Rightarrow> 'a option" where
  "rd xs i = (if 0 \<le> i \<and> i < int (length xs) then Some (xs ! nat i) else None)"

definition wr :: "'a list \<Rightarrow> int \<Rightarrow> 'a \<Rightarrow> 'a list option" where
  "wr xs i v = (if 0 \<le> i \<and> i < int (length xs) then Some (xs[nat i := v]) else None)"

definition in_grid :: "config \<Rightarrow> int \<Rightarrow> int \<Rightarrow> bool" where
  "in_grid cfg r c =
     (0 \<le> r \<and> r < int (N_SCAN cfg) \<and> 0 \<le> c \<and> c < int (HORIZON_SCAN cfg))"

definition cell :: "config \<Rightarrow> int \<Rightarrow> int \<Rightarrow> int" where
  "cell cfg r c = r * int (HORIZON_SCAN cfg) + c"

definition mat_at :: "config \<Rightarrow> 'a list \<Rightarrow> int \<Rightarrow> int \<Rightarrow> 'a option" where
  "mat_at cfg m r c = (if in_grid cfg r c then rd m (cell cfg r c) else None)"

definition mat_set :: "config \<Rightarrow> 'a list \<Rightarrow> int \<Rightarrow> int \<Rightarrow> 'a \<Rightarrow> 'a list option" where
  "mat_set cfg m r c v = (if in_grid cfg r c then wr m (cell cfg r c) v else None)"

subsection \<open>The C library\<close>

definition atan2 :: "real \<Rightarrow> real \<Rightarrow> real" where
  "atan2 b a =
     (if 0 < a then arctan (b / a)
      else if a < 0 then (if 0 \<le> b then arctan (b / a) + pi else arctan (b / a) - pi)
      else if 0 < b then pi / 2
      else if b < 0 then - (pi / 2)
      else 0)"

subsection \<open>LabelComponents\<close>

text \<open>
  The local variables of the function are the record \<open>locals\<close>. The element type of
  the four work arrays is declared in \<^verbatim>\<open>image_projection.h\<close>, which is not part of the
  source; the arrays hold integers here. The member \<^verbatim>\<open>alpha\<close> is written before each
  use and read nowhere else, so it is a local value of \<open>seg_angle\<close>.
\<close>

record locals =
  all_pushed_ind_size :: int
  queue_start_ind :: int
  queue_end_ind :: int
  queue_size :: int
  line_count_flag :: "bool list"

text \<open>Lines 323 to 332: the cell examined from \<open>(from_indX, from_indY)\<close> in direction \<open>d\<close>.\<close>

definition neighbor :: "config \<Rightarrow> int \<Rightarrow> int \<Rightarrow> int \<times> int \<Rightarrow> (int \<times> int) option" where
  "neighbor cfg from_indX from_indY d =
     (let this_indX = from_indX + fst d;
          this_indY = from_indY + snd d
      in if this_indX < 0 \<or> this_indX \<ge> int (N_SCAN cfg) then None
         else let this_indY = (if this_indY < 0 then int (HORIZON_SCAN cfg) - 1 else this_indY);
                  this_indY = (if this_indY \<ge> int (HORIZON_SCAN cfg) then 0 else this_indY)
              in Some (this_indX, this_indY))"

text \<open>Lines 337 to 347: the angle between two neighbouring returns and its threshold.\<close>

definition seg_angle :: "config \<Rightarrow> real \<Rightarrow> real \<Rightarrow> int \<times> int \<Rightarrow> real" where
  "seg_angle cfg range_from range_this d =
     (let d2 = min range_from range_this;
          d1 = max range_from range_this;
          alpha = (if fst d = 0 then segmentAlphaX cfg else segmentAlphaY cfg)
      in atan2 (d2 * sin alpha) (d1 - d2 * cos alpha))"

text \<open>Lines 348 to 358: the neighbour joins the queue and the segment.\<close>

definition push :: "config \<Rightarrow> int \<Rightarrow> int \<Rightarrow> state \<times> locals \<Rightarrow> (state \<times> locals) option" where
  "push cfg this_indX this_indY s = (case s of (st, lv) \<Rightarrow> do {
     qx \<leftarrow> wr (queue_indX st) (queue_end_ind lv) this_indX;
     qy \<leftarrow> wr (queue_indY st) (queue_end_ind lv) this_indY;
     lm \<leftarrow> mat_set cfg (label_mat st) this_indX this_indY (label_count st);
     fl \<leftarrow> wr (line_count_flag lv) this_indX True;
     ax \<leftarrow> wr (all_pushed_indX st) (all_pushed_ind_size lv) this_indX;
     ay \<leftarrow> wr (all_pushed_indY st) (all_pushed_ind_size lv) this_indY;
     Some (st\<lparr>queue_indX := qx, queue_indY := qy, label_mat := lm,
              all_pushed_indX := ax, all_pushed_indY := ay\<rparr>,
           lv\<lparr>queue_size := queue_size lv + 1,
              queue_end_ind := queue_end_ind lv + 1,
              line_count_flag := fl,
              all_pushed_ind_size := all_pushed_ind_size lv + 1\<rparr>)
   })"

text \<open>One round of the loop over the four directions (lines 323 to 359).\<close>

definition visit ::
  "config \<Rightarrow> int \<Rightarrow> int \<Rightarrow> int \<times> int \<Rightarrow> state \<times> locals \<Rightarrow> (state \<times> locals) option" where
  "visit cfg from_indX from_indY d s =
     (case neighbor cfg from_indX from_indY d of
        None \<Rightarrow> Some s
      | Some (this_indX, this_indY) \<Rightarrow> do {
          l \<leftarrow> mat_at cfg (label_mat (fst s)) this_indX this_indY;
          if l \<noteq> LABEL_INIT then Some s
          else do {
            range_from \<leftarrow> mat_at cfg (range_mat (fst s)) from_indX from_indY;
            range_this \<leftarrow> mat_at cfg (range_mat (fst s)) this_indX this_indY;
            if seg_angle cfg range_from range_this d > segmentTheta cfg
            then push cfg this_indX this_indY s
            else Some s
          }
        })"

fun visit_dirs ::
  "config \<Rightarrow> int \<Rightarrow> int \<Rightarrow> (int \<times> int) list \<Rightarrow> state \<times> locals \<Rightarrow> (state \<times> locals) option" where
  "visit_dirs cfg from_indX from_indY [] s = Some s"
| "visit_dirs cfg from_indX from_indY (d # ds) s = do {
     s' \<leftarrow> visit cfg from_indX from_indY d s;
     visit_dirs cfg from_indX from_indY ds s'
   }"

text \<open>The body of the while loop (lines 316 to 360).\<close>

definition bfs_body :: "config \<Rightarrow> state \<times> locals \<Rightarrow> (state \<times> locals) option" where
  "bfs_body cfg s = (case s of (st, lv) \<Rightarrow> do {
     from_indX \<leftarrow> rd (queue_indX st) (queue_start_ind lv);
     from_indY \<leftarrow> rd (queue_indY st) (queue_start_ind lv);
     lm \<leftarrow> mat_set cfg (label_mat st) from_indX from_indY (label_count st);
     visit_dirs cfg from_indX from_indY dirs
       (st\<lparr>label_mat := lm\<rparr>,
        lv\<lparr>queue_size := queue_size lv - 1, queue_start_ind := queue_start_ind lv + 1\<rparr>)
   })"

lemma push_keeps:
  assumes "push cfg a b (st, lv) = Some (st', lv')"
  shows "length (queue_indX st') = length (queue_indX st)"
    and "queue_start_ind lv' = queue_start_ind lv"
  using assms
  by (auto simp: push_def wr_def mat_set_def Option.bind_eq_Some_conv split: if_splits)

lemma visit_keeps:
  assumes "visit cfg a b d (st, lv) = Some (st', lv')"
  shows "length (queue_indX st') = length (queue_indX st)"
    and "queue_start_ind lv' = queue_start_ind lv"
  using assms push_keeps [of cfg _ _ st lv st' lv']
  by (auto simp: visit_def Option.bind_eq_Some_conv split: option.splits if_splits)

lemma visit_dirs_keeps:
  "visit_dirs cfg a b ds s = Some s' \<Longrightarrow>
     length (queue_indX (fst s')) = length (queue_indX (fst s)) \<and>
     queue_start_ind (snd s') = queue_start_ind (snd s)"
proof (induction ds arbitrary: s)
  case Nil
  then show ?case by simp
next
  case (Cons d ds)
  from Cons.prems obtain s1 where v: "visit cfg a b d s = Some s1"
    and r: "visit_dirs cfg a b ds s1 = Some s'"
    by (auto simp: Option.bind_eq_Some_conv)
  from v visit_keeps [of cfg a b d "fst s" "snd s" "fst s1" "snd s1"]
  have "length (queue_indX (fst s1)) = length (queue_indX (fst s))"
    "queue_start_ind (snd s1) = queue_start_ind (snd s)" by simp_all
  with Cons.IH [OF r] show ?case by simp
qed

lemma bfs_body_advances:
  assumes "bfs_body cfg (st, lv) = Some (st', lv')"
  shows "length (queue_indX st') = length (queue_indX st)"
    and "queue_start_ind lv' = queue_start_ind lv + 1"
    and "0 \<le> queue_start_ind lv"
    and "queue_start_ind lv < int (length (queue_indX st))"
proof -
  from assms obtain a b lm where
    a: "rd (queue_indX st) (queue_start_ind lv) = Some a" and
    v: "visit_dirs cfg a b dirs
          (st\<lparr>label_mat := lm\<rparr>,
           lv\<lparr>queue_size := queue_size lv - 1, queue_start_ind := queue_start_ind lv + 1\<rparr>)
        = Some (st', lv')"
    by (auto simp: bfs_body_def Option.bind_eq_Some_conv)
  from visit_dirs_keeps [OF v]
  show "length (queue_indX st') = length (queue_indX st)"
    and "queue_start_ind lv' = queue_start_ind lv + 1" by simp_all
  from a show "0 \<le> queue_start_ind lv" and "queue_start_ind lv < int (length (queue_indX st))"
    by (auto simp: rd_def split: if_splits)
qed

text \<open>The while loop (line 315).\<close>

function bfs_while :: "config \<Rightarrow> state \<times> locals \<Rightarrow> (state \<times> locals) option" where
  "bfs_while cfg (st, lv) =
     (if queue_size lv > 0
      then (case bfs_body cfg (st, lv) of
              None \<Rightarrow> None
            | Some (st', lv') \<Rightarrow> bfs_while cfg (st', lv'))
      else Some (st, lv))"
  by pat_completeness auto
termination
proof (relation "measure (\<lambda>(cfg, st, lv). nat (int (length (queue_indX st)) - queue_start_ind lv))")
  show "wf (measure (\<lambda>(cfg, st, lv). nat (int (length (queue_indX st)) - queue_start_ind lv)))"
    by simp
next
  fix cfg st lv x2 st' lv'
  assume "bfs_body cfg (st, lv) = Some x2" and "(st', lv') = x2"
  then have b: "bfs_body cfg (st, lv) = Some (st', lv')" by simp
  from bfs_body_advances [OF b]
  show "((cfg, st', lv'), (cfg, st, lv))
        \<in> measure (\<lambda>(cfg, st, lv). nat (int (length (queue_indX st)) - queue_start_ind lv))"
    by simp
qed

declare bfs_while.simps [simp del]

lemma bfs_while_run:
  "0 < queue_size lv \<Longrightarrow>
     bfs_while cfg (st, lv) = Option.bind (bfs_body cfg (st, lv)) (bfs_while cfg)"
  by (subst bfs_while.simps) (auto split: option.splits)

lemma bfs_while_stop:
  "\<not> 0 < queue_size lv \<Longrightarrow> bfs_while cfg (st, lv) = Some (st, lv)"
  by (subst bfs_while.simps) simp

text \<open>Lines 303 to 361: the seed is queued and the segment grows until the queue is empty.\<close>

definition grow :: "config \<Rightarrow> state \<Rightarrow> int \<Rightarrow> int \<Rightarrow> (state \<times> locals) option" where
  "grow cfg st row col = do {
     qx \<leftarrow> wr (queue_indX st) 0 row;
     qy \<leftarrow> wr (queue_indY st) 0 col;
     ax \<leftarrow> wr (all_pushed_indX st) 0 row;
     ay \<leftarrow> wr (all_pushed_indY st) 0 col;
     bfs_while cfg
       (st\<lparr>queue_indX := qx, queue_indY := qy, all_pushed_indX := ax, all_pushed_indY := ay\<rparr>,
        \<lparr>all_pushed_ind_size = 1, queue_start_ind = 0, queue_end_ind = 1, queue_size = 1,
         line_count_flag = replicate (N_SCAN cfg) False\<rparr>)
   }"

text \<open>Lines 363 to 376.\<close>

definition line_count :: "config \<Rightarrow> locals \<Rightarrow> int" where
  "line_count cfg lv = int (length (filter (\<lambda>i. line_count_flag lv ! i) [0..<N_SCAN cfg]))"

definition feasible_segment :: "config \<Rightarrow> locals \<Rightarrow> bool" where
  "feasible_segment cfg lv =
     (if all_pushed_ind_size lv \<ge> 30 then True
      else if all_pushed_ind_size lv \<ge> segmentValidPointNum cfg
           then line_count cfg lv \<ge> segmentValidLineNum cfg
           else False)"

text \<open>
  Lines 381 to 383, for the indices \<open>is\<close> in turn. \<^verbatim>\<open>LabelComponents\<close> runs them over
  \<open>[0..<nat all_pushed_ind_size]\<close>: the counter starts at 1 and only grows, so its
  conversion to \<^verbatim>\<open>size_t\<close> is its value.
\<close>

fun mark_invalid :: "config \<Rightarrow> nat list \<Rightarrow> state \<Rightarrow> state option" where
  "mark_invalid cfg [] st = Some st"
| "mark_invalid cfg (i # is) st = do {
     ax \<leftarrow> rd (all_pushed_indX st) (int i);
     ay \<leftarrow> rd (all_pushed_indY st) (int i);
     lm \<leftarrow> mat_set cfg (label_mat st) ax ay LABEL_INVALID;
     mark_invalid cfg is (st\<lparr>label_mat := lm\<rparr>)
   }"

definition LabelComponents :: "config \<Rightarrow> state \<Rightarrow> int \<Rightarrow> int \<Rightarrow> state option" where
  "LabelComponents cfg st row col = do {
     (st', lv) \<leftarrow> grow cfg st row col;
     if feasible_segment cfg lv
     then Some (st'\<lparr>label_count := label_count st' + 1\<rparr>)
     else mark_invalid cfg [0..<nat (all_pushed_ind_size lv)] st'
   }"

subsection \<open>Loops over index ranges\<close>

fun for_each :: "('i \<Rightarrow> 's \<Rightarrow> 's option) \<Rightarrow> 'i list \<Rightarrow> 's \<Rightarrow> 's option" where
  "for_each f [] s = Some s"
| "for_each f (i # is) s = Option.bind (f i s) (for_each f is)"

text \<open>The cells \<open>(i, j)\<close> of the rows \<open>rows\<close>, row by row, each row by ascending column.\<close>

definition cells :: "config \<Rightarrow> nat list \<Rightarrow> (nat \<times> nat) list" where
  "cells cfg rows = List.product rows [0..<HORIZON_SCAN cfg]"

subsection \<open>ResetParameters\<close>

definition ResetParameters :: "config \<Rightarrow> state \<Rightarrow> state" where
  "ResetParameters cfg st =
     st\<lparr>laser_cloud_in := [],
        laser_cloud_in_ring := [],
        ground_cloud := [],
        segmented_cloud := [],
        segmented_cloud_pure := [],
        outlier_cloud := [],
        range_mat := replicate (N_SCAN cfg * HORIZON_SCAN cfg) FLT_MAX,
        ground_mat := replicate (N_SCAN cfg * HORIZON_SCAN cfg) 0,
        label_mat := replicate (N_SCAN cfg * HORIZON_SCAN cfg) LABEL_INIT,
        label_count := 1,
        full_cloud := map (\<lambda>_. nan_point) (full_cloud st),
        full_info_cloud := map (\<lambda>_. nan_point) (full_info_cloud st)\<rparr>"

text \<open>The frame state that \<^verbatim>\<open>ResetParameters\<close> establishes.\<close>

definition initial_frame_state :: "config \<Rightarrow> state \<Rightarrow> bool" where
  "initial_frame_state cfg st \<longleftrightarrow>
     range_mat st = replicate (N_SCAN cfg * HORIZON_SCAN cfg) FLT_MAX \<and>
     ground_mat st = replicate (N_SCAN cfg * HORIZON_SCAN cfg) 0 \<and>
     label_mat st = replicate (N_SCAN cfg * HORIZON_SCAN cfg) LABEL_INIT \<and>
     label_count st = 1 \<and>
     laser_cloud_in st = [] \<and> laser_cloud_in_ring st = [] \<and>
     ground_cloud st = [] \<and> segmented_cloud st = [] \<and>
     segmented_cloud_pure st = [] \<and> outlier_cloud st = [] \<and>
     (\<forall>p \<in> set (full_cloud st). p = nan_point) \<and>
     (\<forall>p \<in> set (full_info_cloud st). p = nan_point)"

subsection \<open>CopyPointCloud and FindStartEndAngle\<close>

text \<open>
  \<^verbatim>\<open>removeNaNFromPointCloud\<close> keeps the points without a NaN coordinate, in order.
  \<^verbatim>\<open>ACHECK\<close> and \<^verbatim>\<open>CHECK\<close> end the process when their condition is false.
\<close>

definition CopyPointCloud :: "config \<Rightarrow> state \<Rightarrow> cloud_in \<Rightarrow> error + state" where
  "CopyPointCloud cfg st laser_cloud_msg =
     (let st1 = st\<lparr>cloud_header := msg_timestamp laser_cloud_msg,
                    laser_cloud_in := List.map_filter (\<lambda>p. p) (msg_points laser_cloud_msg)\<rparr>
      in if use_cloud_ring cfg
         then (let st2 = st1\<lparr>laser_cloud_in_ring := msg_rings laser_cloud_msg\<rparr>
               in if msg_is_dense laser_cloud_msg then Inr st2 else Inl Check_failed)
         else Inr st1)"


definition FindStartEndAngle :: "state \<Rightarrow> error + state" where
  "FindStartEndAngle st =
     (if laser_cloud_in st = [] then Inl Undefined_behaviour
      else let front = hd (laser_cloud_in st);
               back = last (laser_cloud_in st);
               start_o = atan2 (px front) (py front);
               end_o = atan2 (px back) (py back) + 2 * pi;
               diff = end_o - start_o
           in if \<not> diff < 3 * pi then Inl Check_failed
              else if \<not> diff > pi then Inl Check_failed
              else Inr (st\<lparr>seg_msg := (seg_msg st)\<lparr>startOrientation := start_o,
                                                   endOrientation := end_o,
                                                   orientationDiff := diff\<rparr>\<rparr>))"

subsection \<open>ProjectPointCloud\<close>

text \<open>
  The conversion of a floating-point number to \<^verbatim>\<open>size_t\<close> drops the fractional part
  (\<open>c_trunc\<close>); a negative result wraps around modulo \<open>2 ^ 64\<close>, as it does on the
  64-bit targets of the program for values from \<open>- 2 ^ 63\<close> on (the C++ standard leaves
  the conversion of a negative value undefined). \<open>c_round\<close> is \<^verbatim>\<open>round\<close>, which rounds
  halves away from zero.
\<close>

definition c_trunc :: "real \<Rightarrow> int" where
  "c_trunc v = (if 0 \<le> v then \<lfloor>v\<rfloor> else \<lceil>v\<rceil>)"

definition to_size_t :: "real \<Rightarrow> nat" where
  "to_size_t v = nat (c_trunc v mod 2 ^ 64)"

definition c_round :: "real \<Rightarrow> int" where
  "c_round v = (if 0 \<le> v then \<lfloor>v + 1 / 2\<rfloor> else \<lceil>v - 1 / 2\<rceil>)"

text \<open>Lines 141 and 142: the row of a point from its vertical angle.\<close>

definition row_bucket :: "config \<Rightarrow> point \<Rightarrow> real" where
  "row_bucket cfg this_point =
     (let vertical_angle =
        atan2 (pz this_point)
          (sqrt (px this_point * px this_point + py this_point * py this_point)) * 180 / pi
      in (vertical_angle + ang_bottom cfg) / ang_res_y cfg)"

text \<open>Lines 148 and 150: the column of a point from its azimuth, before the wrap.\<close>

definition column_bucket :: "config \<Rightarrow> point \<Rightarrow> real" where
  "column_bucket cfg this_point =
     (let horizon_angle = atan2 (px this_point) (py this_point) * 180 / pi
      in - real_of_int (c_round ((horizon_angle - 90) / ang_res_x cfg))
         + real (HORIZON_SCAN cfg div 2))"

definition project_point :: "config \<Rightarrow> nat \<Rightarrow> state \<Rightarrow> state option" where
  "project_point cfg i st = do {
     this_point \<leftarrow> rd (laser_cloud_in st) (int i);
     row_idn \<leftarrow> (if use_cloud_ring cfg then rd (laser_cloud_in_ring st) (int i)
                 else Some (to_size_t (row_bucket cfg this_point)));
     if row_idn \<ge> N_SCAN cfg then Some st
     else let column_idn = to_size_t (column_bucket cfg this_point);
              column_idn = (if column_idn \<ge> HORIZON_SCAN cfg
                            then column_idn - HORIZON_SCAN cfg else column_idn)
          in if column_idn \<ge> HORIZON_SCAN cfg then Some st
             else let range = sqrt (px this_point * px this_point
                                    + py this_point * py this_point
                                    + pz this_point * pz this_point)
                  in if range < sensor_minimum_range cfg then Some st
                     else do {
                       rm \<leftarrow> mat_set cfg (range_mat st) (int row_idn) (int column_idn) range;
                       let this_point =
                             this_point\<lparr>intensity := real row_idn + real column_idn / 10000\<rparr>;
                       let index = column_idn + row_idn * HORIZON_SCAN cfg;
                       fc \<leftarrow> wr (full_cloud st) (int index) (Some this_point);
                       fic \<leftarrow> wr (full_info_cloud st) (int index)
                                (Some (this_point\<lparr>intensity := range\<rparr>));
                       Some (st\<lparr>range_mat := rm, full_cloud := fc, full_info_cloud := fic\<rparr>)
                     }
   }"

definition ProjectPointCloud :: "config \<Rightarrow> state \<Rightarrow> state option" where
  "ProjectPointCloud cfg st =
     for_each (project_point cfg) [0..<length (laser_cloud_in st)] st"

subsection \<open>GroundRemoval\<close>

text \<open>Lines 176 to 194: the pair of cells \<open>(i, j)\<close> and \<open>(i + 1, j)\<close>.\<close>

definition slope_angle :: "point \<Rightarrow> point \<Rightarrow> real" where
  "slope_angle lower upper =
     (let diffx = px upper - px lower;
          diffy = py upper - py lower;
          diffz = pz upper - pz lower
      in atan2 diffz (sqrt (diffx * diffx + diffy * diffy)) * 180 / pi)"

definition mark_no_return :: "config \<Rightarrow> nat \<Rightarrow> nat \<Rightarrow> state \<Rightarrow> state option" where
  "mark_no_return cfg i j st = do {
     gm \<leftarrow> mat_set cfg (ground_mat st) (int i) (int j) (-1);
     Some (st\<lparr>ground_mat := gm\<rparr>)
   }"

definition ground_pair :: "config \<Rightarrow> nat \<times> nat \<Rightarrow> state \<Rightarrow> state option" where
  "ground_pair cfg c st = (case c of (i, j) \<Rightarrow> do {
     let lower_ind = j + i * HORIZON_SCAN cfg;
     let upper_ind = j + (i + 1) * HORIZON_SCAN cfg;
     lower \<leftarrow> rd (full_cloud st) (int lower_ind);
     if IsNaN lower then mark_no_return cfg i j st
     else do {
       upper \<leftarrow> rd (full_cloud st) (int upper_ind);
       if IsNaN upper then mark_no_return cfg i j st
       else if \<bar>slope_angle (the lower) (the upper) - sensor_mount_angle cfg\<bar> \<le> 10
       then do {
         gm \<leftarrow> mat_set cfg (ground_mat st) (int i) (int j) 1;
         gm \<leftarrow> mat_set cfg gm (int (i + 1)) (int j) 1;
         Some (st\<lparr>ground_mat := gm\<rparr>)
       }
       else Some st
     }
   })"

text \<open>Lines 200 to 202.\<close>

definition exclude_cell :: "config \<Rightarrow> nat \<times> nat \<Rightarrow> state \<Rightarrow> state option" where
  "exclude_cell cfg c st = (case c of (i, j) \<Rightarrow> do {
     g \<leftarrow> mat_at cfg (ground_mat st) (int i) (int j);
     r \<leftarrow> mat_at cfg (range_mat st) (int i) (int j);
     if g = 1 \<or> r = FLT_MAX then do {
       lm \<leftarrow> mat_set cfg (label_mat st) (int i) (int j) (-1);
       Some (st\<lparr>label_mat := lm\<rparr>)
     }
     else Some st
   })"

text \<open>Lines 208 and 209.\<close>

definition collect_ground :: "config \<Rightarrow> nat \<times> nat \<Rightarrow> state \<Rightarrow> state option" where
  "collect_ground cfg c st = (case c of (i, j) \<Rightarrow> do {
     g \<leftarrow> mat_at cfg (ground_mat st) (int i) (int j);
     if g = 1 then do {
       p \<leftarrow> rd (full_cloud st) (int (j + i * HORIZON_SCAN cfg));
       Some (st\<lparr>ground_cloud := ground_cloud st @ [p]\<rparr>)
     }
     else Some st
   })"

definition GroundRemoval :: "config \<Rightarrow> state \<Rightarrow> state option" where
  "GroundRemoval cfg st = do {
     st \<leftarrow> for_each (ground_pair cfg) (cells cfg [0..<groundScanInd cfg]) st;
     st \<leftarrow> for_each (exclude_cell cfg) (cells cfg [0..<N_SCAN cfg]) st;
     for_each (collect_ground cfg) (cells cfg [0..<Suc (groundScanInd cfg)]) st
   }"

subsection \<open>CloudSegmentation\<close>

text \<open>Lines 217 and 218.\<close>

definition label_cell :: "config \<Rightarrow> nat \<times> nat \<Rightarrow> state \<Rightarrow> state option" where
  "label_cell cfg c st = (case c of (i, j) \<Rightarrow> do {
     l \<leftarrow> mat_at cfg (label_mat st) (int i) (int j);
     if l = LABEL_INIT then LabelComponents cfg st (int i) (int j) else Some st
   })"

text \<open>
  Lines 227 to 245: the cell \<open>(i, j)\<close> of the second pass; \<open>n\<close> is
  \<^verbatim>\<open>size_of_seg_cloud\<close>. The source spells the number of columns \<^verbatim>\<open>Horizon_SCAN\<close> in
  the index of the point and \<^verbatim>\<open>HORIZON_SCAN\<close> elsewhere; both are \<open>HORIZON_SCAN\<close> here.
  The bound \<^verbatim>\<open>HORIZON_SCAN-5\<close> is converted to \<^verbatim>\<open>size_t\<close> for the comparison with \<open>j\<close>.
\<close>

definition assemble_cell ::
  "config \<Rightarrow> nat \<Rightarrow> nat \<Rightarrow> state \<times> int \<Rightarrow> (state \<times> int) option" where
  "assemble_cell cfg i j s = (case s of (st, n) \<Rightarrow> do {
     l \<leftarrow> mat_at cfg (label_mat st) (int i) (int j);
     g \<leftarrow> mat_at cfg (ground_mat st) (int i) (int j);
     if l > 0 \<or> g = 1 then
       if l = LABEL_INVALID then
         if i > groundScanInd cfg \<and> j mod 5 = 0 then do {
           p \<leftarrow> rd (full_cloud st) (int (j + i * HORIZON_SCAN cfg));
           Some (st\<lparr>outlier_cloud := outlier_cloud st @ [p]\<rparr>, n)
         }
         else Some (st, n)
       else if g = 1 \<and> j mod 5 \<noteq> 0 \<and> j > 5
               \<and> int j < (int (HORIZON_SCAN cfg) - 5) mod 2 ^ 64
       then Some (st, n)
       else do {
         r \<leftarrow> mat_at cfg (range_mat st) (int i) (int j);
         p \<leftarrow> rd (full_cloud st) (int (j + i * HORIZON_SCAN cfg));
         Some (st\<lparr>seg_msg := (seg_msg st)
                     \<lparr>segmentedCloudGroundFlag :=
                        (segmentedCloudGroundFlag (seg_msg st))(nat n \<mapsto> (g = 1)),
                      segmentedCloudColInd :=
                        (segmentedCloudColInd (seg_msg st))(nat n \<mapsto> j),
                      segmentedCloudRange :=
                        (segmentedCloudRange (seg_msg st))(nat n \<mapsto> r)\<rparr>,
                  segmented_cloud := segmented_cloud st @ [p]\<rparr>,
               n + 1)
       }
     else Some (st, n)
   })"

text \<open>Lines 224 to 247: one row of the second pass.\<close>

definition assemble_row :: "config \<Rightarrow> nat \<Rightarrow> state \<times> int \<Rightarrow> (state \<times> int) option" where
  "assemble_row cfg i s = (case s of (st, n) \<Rightarrow> do {
     let st = st\<lparr>seg_msg := (seg_msg st)
                  \<lparr>startRingIndex := (startRingIndex (seg_msg st))(i \<mapsto> n - 1 + 5)\<rparr>\<rparr>;
     (st, n) \<leftarrow> for_each (assemble_cell cfg i) [0..<HORIZON_SCAN cfg] (st, n);
     Some (st\<lparr>seg_msg := (seg_msg st)
                 \<lparr>endRingIndex := (endRingIndex (seg_msg st))(i \<mapsto> n - 1 - 5)\<rparr>\<rparr>, n)
   })"

text \<open>Lines 252 to 255.\<close>

definition collect_pure :: "config \<Rightarrow> nat \<times> nat \<Rightarrow> state \<Rightarrow> state option" where
  "collect_pure cfg c st = (case c of (i, j) \<Rightarrow> do {
     l \<leftarrow> mat_at cfg (label_mat st) (int i) (int j);
     if l > 0 \<and> l \<noteq> LABEL_INVALID then do {
       p \<leftarrow> rd (full_cloud st) (int (j + i * HORIZON_SCAN cfg));
       Some (st\<lparr>segmented_cloud_pure :=
                  segmented_cloud_pure st
                  @ [map_option (\<lambda>q. q\<lparr>intensity := real_of_int l\<rparr>) p]\<rparr>)
     }
     else Some st
   })"

definition label_all :: "config \<Rightarrow> state \<Rightarrow> state option" where
  "label_all cfg st = for_each (label_cell cfg) (cells cfg [0..<N_SCAN cfg]) st"

definition assemble_all :: "config \<Rightarrow> state \<Rightarrow> state option" where
  "assemble_all cfg st =
     map_option fst (for_each (assemble_row cfg) [0..<N_SCAN cfg] (st, 0))"

definition CloudSegmentation :: "config \<Rightarrow> state \<Rightarrow> state option" where
  "CloudSegmentation cfg st = do {
     st \<leftarrow> label_all cfg st;
     st \<leftarrow> assemble_all cfg st;
     for_each (collect_pure cfg) (cells cfg [0..<N_SCAN cfg]) st
   }"

subsection \<open>PublishCloud and CloudHandler\<close>

definition PublishCloud :: "state \<Rightarrow> state" where
  "PublishCloud st =
     st\<lparr>published := published st @
        [Info_msg (cloud_header st) (seg_msg st),
         Cloud_msg ''/outlier_cloud'' (cloud_header st) (outlier_cloud st),
         Cloud_msg ''/segmented_cloud'' (cloud_header st) (segmented_cloud st),
         Cloud_msg ''/full_cloud_projected'' (cloud_header st) (full_cloud st),
         Cloud_msg ''/full_cloud_info'' (cloud_header st) (full_info_cloud st),
         Cloud_msg ''/ground_cloud'' (cloud_header st) (ground_cloud st),
         Cloud_msg ''/segmented_cloud_pure'' (cloud_header st) (segmented_cloud_pure st)]\<rparr>"

definition defined :: "'a option \<Rightarrow> error + 'a" where
  "defined r = (case r of None \<Rightarrow> Inl Undefined_behaviour | Some v \<Rightarrow> Inr v)"

definition and_then :: "error + 'a \<Rightarrow> ('a \<Rightarrow> error + 'b) \<Rightarrow> error + 'b" where
  "and_then r f = (case r of Inl e \<Rightarrow> Inl e | Inr v \<Rightarrow> f v)"

definition CloudHandler :: "config \<Rightarrow> state \<Rightarrow> cloud_in \<Rightarrow> error + state" where
  "CloudHandler cfg st laser_cloud_msg =
     and_then (CopyPointCloud cfg st laser_cloud_msg) (\<lambda>st.
     and_then (FindStartEndAngle st) (\<lambda>st.
     and_then (defined (ProjectPointCloud cfg st)) (\<lambda>st.
     and_then (defined (GroundRemoval cfg st)) (\<lambda>st.
     and_then (defined (CloudSegmentation cfg st)) (\<lambda>st.
     Inr (ResetParameters cfg (PublishCloud st)))))))"

section \<open>The invariant of region growing\<close>

text \<open>
  While a segment grows, the work arrays hold pairwise different cells of the grid, each
  of them unlabelled when \<^verbatim>\<open>LabelComponents\<close> was called; every label that has changed
  is the current segment id on such a cell; and the number of queued cells plus the number
  of cells still unlabelled is at most the number of cells of the grid.
\<close>

lemma in_grid_cell:
  assumes "in_grid cfg r c"
  shows "0 \<le> cell cfg r c" and "cell cfg r c < int (N_SCAN cfg * HORIZON_SCAN cfg)"
proof -
  from assms have r: "0 \<le> r" "r + 1 \<le> int (N_SCAN cfg)" and c: "0 \<le> c" "c < int (HORIZON_SCAN cfg)"
    by (simp_all add: in_grid_def)
  show "0 \<le> cell cfg r c" using r c by (simp add: cell_def)
  have "(r + 1) * int (HORIZON_SCAN cfg) \<le> int (N_SCAN cfg) * int (HORIZON_SCAN cfg)"
    using r by (intro mult_right_mono) simp_all
  then show "cell cfg r c < int (N_SCAN cfg * HORIZON_SCAN cfg)"
    using c by (simp add: cell_def algebra_simps)
qed

lemma in_grid_cell_nat:
  "in_grid cfg r c \<Longrightarrow> nat (cell cfg r c) < N_SCAN cfg * HORIZON_SCAN cfg"
  using in_grid_cell [of cfg r c] by (simp add: nat_less_iff)

lemma count_zero_update:
  "i < length lm \<Longrightarrow> v \<noteq> (0::int) \<Longrightarrow>
     count_list (lm[i := v]) 0 + (if lm ! i = 0 then 1 else 0) = count_list lm 0"
proof (induction lm arbitrary: i)
  case Nil
  then show ?case by simp
next
  case (Cons a lm)
  then show ?case by (cases i) auto
qed

lemma count_zero_pos: "i < length lm \<Longrightarrow> lm ! i = (0::int) \<Longrightarrow> 0 < count_list lm 0"
  by (metis count_list_0_iff gr0I nth_mem)

lemma count_zero_less: "i < length lm \<Longrightarrow> lm ! i \<noteq> (0::int) \<Longrightarrow> count_list lm 0 < length lm"
proof (induction lm arbitrary: i)
  case Nil
  then show ?case by simp
next
  case (Cons a lm)
  show ?case
  proof (cases i)
    case 0
    with Cons.prems have "a \<noteq> 0" by simp
    then show ?thesis using count_le_length [of lm 0] by simp
  next
    case (Suc k)
    with Cons.prems Cons.IH [of k] show ?thesis by auto
  qed
qed

definition cells_total :: "config \<Rightarrow> nat" where
  "cells_total cfg = N_SCAN cfg * HORIZON_SCAN cfg"

definition qcell :: "config \<Rightarrow> state \<Rightarrow> nat \<Rightarrow> nat" where
  "qcell cfg st k = nat (cell cfg (queue_indX st ! k) (queue_indY st ! k))"

definition sizes_ok :: "config \<Rightarrow> state \<times> locals \<Rightarrow> bool" where
  "sizes_ok cfg s \<longleftrightarrow>
     length (label_mat (fst s)) = cells_total cfg \<and>
     length (range_mat (fst s)) = cells_total cfg \<and>
     length (queue_indX (fst s)) = cells_total cfg \<and>
     length (queue_indY (fst s)) = cells_total cfg \<and>
     length (all_pushed_indX (fst s)) = cells_total cfg \<and>
     length (all_pushed_indY (fst s)) = cells_total cfg \<and>
     length (line_count_flag (snd s)) = N_SCAN cfg"

definition counters_ok :: "config \<Rightarrow> state \<times> locals \<Rightarrow> bool" where
  "counters_ok cfg s \<longleftrightarrow>
     label_count (fst s) \<noteq> 0 \<and>
     0 \<le> queue_start_ind (snd s) \<and>
     queue_start_ind (snd s) \<le> queue_end_ind (snd s) \<and>
     1 \<le> queue_end_ind (snd s) \<and>
     queue_size (snd s) = queue_end_ind (snd s) - queue_start_ind (snd s) \<and>
     all_pushed_ind_size (snd s) = queue_end_ind (snd s) \<and>
     queue_end_ind (snd s) \<le> int (cells_total cfg)"

definition pushed_ok :: "config \<Rightarrow> int list \<Rightarrow> state \<times> locals \<Rightarrow> bool" where
  "pushed_ok cfg lm0 s \<longleftrightarrow>
     (\<forall>k < nat (queue_end_ind (snd s)).
        in_grid cfg (queue_indX (fst s) ! k) (queue_indY (fst s) ! k) \<and>
        all_pushed_indX (fst s) ! k = queue_indX (fst s) ! k \<and>
        all_pushed_indY (fst s) ! k = queue_indY (fst s) ! k \<and>
        lm0 ! qcell cfg (fst s) k = 0) \<and>
     distinct (map (qcell cfg (fst s)) [0..<nat (queue_end_ind (snd s))])"

definition frame_ok :: "config \<Rightarrow> int list \<Rightarrow> state \<times> locals \<Rightarrow> bool" where
  "frame_ok cfg lm0 s \<longleftrightarrow>
     length lm0 = cells_total cfg \<and>
     (\<forall>i < cells_total cfg.
        label_mat (fst s) ! i = lm0 ! i \<or>
        (lm0 ! i = 0 \<and> label_mat (fst s) ! i = label_count (fst s) \<and>
         i \<in> qcell cfg (fst s) ` {..<nat (queue_end_ind (snd s))}))"

definition growing :: "config \<Rightarrow> state \<times> locals \<Rightarrow> bool" where
  "growing cfg s \<longleftrightarrow>
     (\<forall>k < nat (queue_end_ind (snd s)).
        label_mat (fst s) ! qcell cfg (fst s) k = label_count (fst s)) \<and>
     queue_end_ind (snd s) + int (count_list (label_mat (fst s)) 0) \<le> int (cells_total cfg)"

definition bfs_inv :: "config \<Rightarrow> int list \<Rightarrow> state \<times> locals \<Rightarrow> bool" where
  "bfs_inv cfg lm0 s \<longleftrightarrow>
     sizes_ok cfg s \<and> counters_ok cfg s \<and> pushed_ok cfg lm0 s \<and> frame_ok cfg lm0 s \<and>
     (if queue_start_ind (snd s) = 0 then queue_end_ind (snd s) = 1 else growing cfg s)"

definition kept :: "state \<Rightarrow> state \<Rightarrow> bool" where
  "kept st st' \<longleftrightarrow>
     st' = st\<lparr>label_mat := label_mat st',
               queue_indX := queue_indX st', queue_indY := queue_indY st',
               all_pushed_indX := all_pushed_indX st', all_pushed_indY := all_pushed_indY st'\<rparr>
     \<and> queue_indX st' ! 0 = queue_indX st ! 0 \<and> queue_indY st' ! 0 = queue_indY st ! 0"

lemma kept_refl [simp]: "kept st st"
  by (simp add: kept_def)

lemma kept_trans: "kept st st1 \<Longrightarrow> kept st1 st2 \<Longrightarrow> kept st st2"
  unfolding kept_def by (cases st, cases st1, cases st2) simp

lemma kept_fields:
  assumes "kept st st'"
  shows "label_count st' = label_count st" and "range_mat st' = range_mat st"
    and "ground_mat st' = ground_mat st" and "full_cloud st' = full_cloud st"
    and "full_info_cloud st' = full_info_cloud st"
  using assms unfolding kept_def by (cases st, cases st', simp)+

lemma neighbor_in_grid:
  "in_grid cfg a b \<Longrightarrow> neighbor cfg a b d = Some (r, c) \<Longrightarrow> d \<in> set dirs \<Longrightarrow> in_grid cfg r c"
  by (auto simp: neighbor_def in_grid_def dirs_def Let_def split: if_splits)

lemma push_eq:
  assumes "in_grid cfg a b" and "sizes_ok cfg (st, lv)"
    and "0 \<le> queue_end_ind lv" and "queue_end_ind lv < int (cells_total cfg)"
    and "all_pushed_ind_size lv = queue_end_ind lv"
  shows "push cfg a b (st, lv) =
    Some (st\<lparr>queue_indX := (queue_indX st)[nat (queue_end_ind lv) := a],
              queue_indY := (queue_indY st)[nat (queue_end_ind lv) := b],
              label_mat := (label_mat st)[nat (cell cfg a b) := label_count st],
              all_pushed_indX := (all_pushed_indX st)[nat (queue_end_ind lv) := a],
              all_pushed_indY := (all_pushed_indY st)[nat (queue_end_ind lv) := b]\<rparr>,
          lv\<lparr>queue_size := queue_size lv + 1,
             queue_end_ind := queue_end_ind lv + 1,
             line_count_flag := (line_count_flag lv)[nat a := True],
             all_pushed_ind_size := queue_end_ind lv + 1\<rparr>)"
proof -
  from in_grid_cell [OF assms(1)] have c: "0 \<le> cell cfg a b" "cell cfg a b < int (cells_total cfg)"
    by (simp_all add: cells_total_def)
  from assms(1) have a: "0 \<le> a" "a < int (N_SCAN cfg)" by (simp_all add: in_grid_def)
  show ?thesis
    using assms c a by (simp add: push_def wr_def mat_set_def sizes_ok_def)
qed


lemma push_inv:
  assumes inv: "bfs_inv cfg lm0 (st, lv)" and qs: "queue_start_ind lv \<noteq> 0"
    and g: "in_grid cfg a b" and z: "label_mat st ! nat (cell cfg a b) = 0"
  shows "\<exists>st' lv'. push cfg a b (st, lv) = Some (st', lv') \<and> bfs_inv cfg lm0 (st', lv')
           \<and> queue_start_ind lv' = queue_start_ind lv \<and> kept st st'"
proof -
  define e where "e = nat (queue_end_ind lv)"
  define c where "c = nat (cell cfg a b)"
  define n where "n = cells_total cfg"
  define st' where "st' = st\<lparr>queue_indX := (queue_indX st)[e := a],
              queue_indY := (queue_indY st)[e := b],
              label_mat := (label_mat st)[c := label_count st],
              all_pushed_indX := (all_pushed_indX st)[e := a],
              all_pushed_indY := (all_pushed_indY st)[e := b]\<rparr>"
  define lv' where "lv' = lv\<lparr>queue_size := queue_size lv + 1,
             queue_end_ind := queue_end_ind lv + 1,
             line_count_flag := (line_count_flag lv)[nat a := True],
             all_pushed_ind_size := queue_end_ind lv + 1\<rparr>"
  from inv qs have sz: "sizes_ok cfg (st, lv)" and ct: "counters_ok cfg (st, lv)"
    and pu: "pushed_ok cfg lm0 (st, lv)" and fr: "frame_ok cfg lm0 (st, lv)"
    and gr: "growing cfg (st, lv)"
    by (simp_all add: bfs_inv_def)
  from in_grid_cell_nat [OF g] have cn: "c < n" by (simp add: c_def n_def cells_total_def)
  from sz have len: "length (label_mat st) = n" "length (queue_indX st) = n"
    "length (queue_indY st) = n" "length (all_pushed_indX st) = n"
    "length (all_pushed_indY st) = n"
    by (simp_all add: sizes_ok_def n_def)
  from z cn len have zp: "0 < count_list (label_mat st) 0"
    by (intro count_zero_pos [of c]) (simp_all add: c_def)
  from gr have room: "queue_end_ind lv + int (count_list (label_mat st) 0) \<le> int n"
    and lab: "\<And>k. k < e \<Longrightarrow> label_mat st ! qcell cfg st k = label_count st"
    by (simp_all add: growing_def n_def e_def)
  from ct have qe0: "0 \<le> queue_end_ind lv" and L: "label_count st \<noteq> 0"
    and aps: "all_pushed_ind_size lv = queue_end_ind lv"
    and cts: "0 \<le> queue_start_ind lv" "queue_start_ind lv \<le> queue_end_ind lv"
       "queue_size lv = queue_end_ind lv - queue_start_ind lv"
    by (simp_all add: counters_ok_def)
  from room zp have qen: "queue_end_ind lv < int n" by linarith
  then have en: "e < n" using qe0 by (simp add: e_def)
  have eq: "push cfg a b (st, lv) = Some (st', lv')"
    using push_eq [OF g sz qe0 _ aps] qen
    by (simp add: st'_def lv'_def e_def c_def n_def)
  have qc: "qcell cfg st' k = qcell cfg st k" if "k < e" for k
    using that by (simp add: qcell_def st'_def)
  have qce: "qcell cfg st' e = c"
    using en len by (simp add: qcell_def st'_def c_def)
  have e': "nat (queue_end_ind lv') = Suc e"
    using qe0 by (simp add: lv'_def e_def)
  have s1: "sizes_ok cfg (st', lv')"
    using sz by (simp add: sizes_ok_def st'_def lv'_def)
  have s2: "counters_ok cfg (st', lv')"
    using ct qen by (simp add: counters_ok_def st'_def lv'_def n_def)
  have lm0c: "lm0 ! c = 0"
    using fr z cn by (auto simp: frame_ok_def c_def n_def)
  have notin: "c \<notin> set (map (qcell cfg st) [0..<e])"
  proof
    assume "c \<in> set (map (qcell cfg st) [0..<e])"
    then obtain k where "k < e" "qcell cfg st k = c" by auto
    with lab [of k] z L show False by (simp add: c_def)
  qed
  have s3: "pushed_ok cfg lm0 (st', lv')"
    unfolding pushed_ok_def fst_conv snd_conv e'
  proof (intro conjI allI impI)
    fix k assume k: "k < Suc e"
    show "in_grid cfg (queue_indX st' ! k) (queue_indY st' ! k)"
      using pu k g en len by (cases "k = e") (auto simp: pushed_ok_def st'_def e_def)
    show "all_pushed_indX st' ! k = queue_indX st' ! k"
      using pu k en len by (cases "k = e") (auto simp: pushed_ok_def st'_def e_def)
    show "all_pushed_indY st' ! k = queue_indY st' ! k"
      using pu k en len by (cases "k = e") (auto simp: pushed_ok_def st'_def e_def)
    show "lm0 ! qcell cfg st' k = 0"
    proof (cases "k = e")
      case True
      then show ?thesis using qce lm0c by simp
    next
      case False
      with k have "k < e" by simp
      with pu qc [of k] show ?thesis by (simp add: pushed_ok_def e_def)
    qed
  next
    have "map (qcell cfg st') [0..<e] = map (qcell cfg st) [0..<e]"
      using qc by (intro map_cong) simp_all
    then have m: "map (qcell cfg st') [0..<Suc e] = map (qcell cfg st) [0..<e] @ [c]"
      using qce by simp
    have d: "distinct (map (qcell cfg st) [0..<e])"
      using pu by (simp add: pushed_ok_def e_def)
    show "distinct (map (qcell cfg st') [0..<Suc e])"
      unfolding m using d notin by simp
  qed
  have s4: "frame_ok cfg lm0 (st', lv')"
    unfolding frame_ok_def fst_conv snd_conv e'
  proof (intro conjI allI impI)
    show "length lm0 = cells_total cfg" using fr by (simp add: frame_ok_def)
    fix i assume i: "i < cells_total cfg"
    from fr i have old: "label_mat st ! i = lm0 ! i \<or>
        (lm0 ! i = 0 \<and> label_mat st ! i = label_count st \<and> i \<in> qcell cfg st ` {..<e})"
      by (simp add: frame_ok_def e_def)
    have sub: "qcell cfg st ` {..<e} \<subseteq> qcell cfg st' ` {..<Suc e}"
    proof
      fix v assume "v \<in> qcell cfg st ` {..<e}"
      then obtain j where j: "j < e" "v = qcell cfg st j" by auto
      with qc [of j] have "v = qcell cfg st' j" "j < Suc e" by simp_all
      then show "v \<in> qcell cfg st' ` {..<Suc e}" by blast
    qed
    show "label_mat st' ! i = lm0 ! i \<or> (lm0 ! i = 0 \<and> label_mat st' ! i = label_count st'
        \<and> i \<in> qcell cfg st' ` {..<Suc e})"
    proof (cases "i = c")
      case True
      have "c \<in> qcell cfg st' ` {..<Suc e}" using qce by force
      then show ?thesis using True lm0c cn len by (simp add: st'_def)
    next
      case False
      then have "label_mat st' ! i = label_mat st ! i" "label_count st' = label_count st"
        by (simp_all add: st'_def)
      then show ?thesis using old sub by auto
    qed
  qed
  have s5: "growing cfg (st', lv')"
    unfolding growing_def fst_conv snd_conv e'
  proof (intro conjI allI impI)
    fix k assume k: "k < Suc e"
    show "label_mat st' ! qcell cfg st' k = label_count st'"
    proof (cases "k = e")
      case True
      then show ?thesis using qce cn len by (simp add: st'_def)
    next
      case False
      with k have ke: "k < e" by simp
      have "qcell cfg st k < n"
        using pu ke in_grid_cell_nat [of cfg "queue_indX st ! k" "queue_indY st ! k"]
        by (simp add: pushed_ok_def e_def qcell_def n_def cells_total_def)
      then have "(label_mat st)[c := label_count st] ! qcell cfg st k = label_count st"
        using lab [OF ke] cn len by (simp add: nth_list_update)
      then show ?thesis using qc [OF ke] by (simp add: st'_def)
    qed
  next
    from count_zero_update [of c "label_mat st" "label_count st"] cn len L z
    have "count_list ((label_mat st)[c := label_count st]) 0 + 1 = count_list (label_mat st) 0"
      by (simp add: c_def)
    with room show "queue_end_ind lv' + int (count_list (label_mat st') 0) \<le> int (cells_total cfg)"
      by (simp add: st'_def lv'_def n_def)
  qed
  have "bfs_inv cfg lm0 (st', lv')"
    using s1 s2 s3 s4 s5 qs by (simp add: bfs_inv_def lv'_def)
  moreover have "kept st st'"
    using ct qe0 by (simp add: kept_def st'_def e_def counters_ok_def)
  ultimately show ?thesis using eq by (auto simp: lv'_def)
qed


lemma mat_at_eq:
  "in_grid cfg r c \<Longrightarrow> length m = cells_total cfg \<Longrightarrow>
     mat_at cfg m r c = Some (m ! nat (cell cfg r c))"
  using in_grid_cell [of cfg r c] by (simp add: mat_at_def rd_def cells_total_def)

lemma mat_set_eq:
  "in_grid cfg r c \<Longrightarrow> length m = cells_total cfg \<Longrightarrow>
     mat_set cfg m r c v = Some (m[nat (cell cfg r c) := v])"
  using in_grid_cell [of cfg r c] by (simp add: mat_set_def wr_def cells_total_def)

lemma visit_inv:
  assumes inv: "bfs_inv cfg lm0 (st, lv)" and qs: "queue_start_ind lv \<noteq> 0"
    and g: "in_grid cfg fx fy" and d: "d \<in> set dirs"
  shows "\<exists>st' lv'. visit cfg fx fy d (st, lv) = Some (st', lv') \<and> bfs_inv cfg lm0 (st', lv')
           \<and> queue_start_ind lv' = queue_start_ind lv \<and> kept st st'"
proof (cases "neighbor cfg fx fy d")
  case None
  with inv show ?thesis by (simp add: visit_def)
next
  case (Some p)
  obtain tx ty where p: "p = (tx, ty)" by (cases p)
  from neighbor_in_grid [OF g _ d] Some p have t: "in_grid cfg tx ty" by simp
  from inv have len: "length (label_mat st) = cells_total cfg"
    "length (range_mat st) = cells_total cfg"
    by (simp_all add: bfs_inv_def sizes_ok_def)
  note at = mat_at_eq [OF t len(1)] mat_at_eq [OF t len(2)] mat_at_eq [OF g len(2)]
  show ?thesis
  proof (cases "label_mat st ! nat (cell cfg tx ty) = 0
      \<and> seg_angle cfg (range_mat st ! nat (cell cfg fx fy))
            (range_mat st ! nat (cell cfg tx ty)) d > segmentTheta cfg")
    case True
    then have "visit cfg fx fy d (st, lv) = push cfg tx ty (st, lv)"
      using Some p at by (simp add: visit_def LABEL_INIT_def)
    with push_inv [OF inv qs t] True show ?thesis by simp
  next
    case False
    then have "visit cfg fx fy d (st, lv) = Some (st, lv)"
      using Some p at by (auto simp: visit_def LABEL_INIT_def)
    with inv show ?thesis by simp
  qed
qed

lemma visit_dirs_inv:
  assumes g: "in_grid cfg fx fy"
  shows "bfs_inv cfg lm0 s \<Longrightarrow> queue_start_ind (snd s) \<noteq> 0 \<Longrightarrow> set ds \<subseteq> set dirs \<Longrightarrow>
     \<exists>s'. visit_dirs cfg fx fy ds s = Some s' \<and> bfs_inv cfg lm0 s'
           \<and> queue_start_ind (snd s') = queue_start_ind (snd s)
           \<and> kept (fst s) (fst s')"
proof (induction ds arbitrary: s)
  case Nil
  then show ?case by simp
next
  case (Cons d ds)
  obtain st lv where s: "s = (st, lv)" by (cases s)
  from Cons.prems s visit_inv [OF _ _ g, of lm0 st lv d]
  obtain st1 lv1 where v: "visit cfg fx fy d (st, lv) = Some (st1, lv1)"
    and i1: "bfs_inv cfg lm0 (st1, lv1)" and q1: "queue_start_ind lv1 = queue_start_ind lv"
    and k1: "kept st st1"
    by auto
  from Cons.IH [of "(st1, lv1)"] i1 q1 Cons.prems s
  obtain s' where "visit_dirs cfg fx fy ds (st1, lv1) = Some s'" "bfs_inv cfg lm0 s'"
    "queue_start_ind (snd s') = queue_start_ind lv1" "kept st1 (fst s')"
    by auto
  with v s q1 kept_trans [OF k1] show ?case by simp
qed


lemma bfs_body_inv:
  assumes inv: "bfs_inv cfg lm0 (st, lv)" and run: "0 < queue_size lv"
  shows "\<exists>st' lv'. bfs_body cfg (st, lv) = Some (st', lv') \<and> bfs_inv cfg lm0 (st', lv')
           \<and> kept st st'"
proof -
  define k where "k = nat (queue_start_ind lv)"
  define e where "e = nat (queue_end_ind lv)"
  define c where "c = qcell cfg st k"
  define n where "n = cells_total cfg"
  define st1 where "st1 = st\<lparr>label_mat := (label_mat st)[c := label_count st]\<rparr>"
  define lv1 where "lv1 = lv\<lparr>queue_size := queue_size lv - 1,
     queue_start_ind := queue_start_ind lv + 1\<rparr>"
  from inv have sz: "sizes_ok cfg (st, lv)" and ct: "counters_ok cfg (st, lv)"
    and pu: "pushed_ok cfg lm0 (st, lv)" and fr: "frame_ok cfg lm0 (st, lv)"
    by (simp_all add: bfs_inv_def)
  from sz have len: "length (label_mat st) = n" "length (queue_indX st) = n"
    "length (queue_indY st) = n"
    by (simp_all add: sizes_ok_def n_def)
  from ct run have cts: "0 \<le> queue_start_ind lv" "queue_start_ind lv < queue_end_ind lv"
    "queue_end_ind lv \<le> int n" and L: "label_count st \<noteq> 0"
    by (simp_all add: counters_ok_def n_def)
  then have ke: "k < e" and en: "e \<le> n" by (simp_all add: k_def e_def)
  from pu ke have g: "in_grid cfg (queue_indX st ! k) (queue_indY st ! k)"
    and lm0c: "lm0 ! c = 0"
    by (simp_all add: pushed_ok_def e_def c_def)
  from in_grid_cell_nat [OF g] have cn: "c < n"
    by (simp add: c_def qcell_def n_def cells_total_def)
  have rdx: "rd (queue_indX st) (queue_start_ind lv) = Some (queue_indX st ! k)"
    and rdy: "rd (queue_indY st) (queue_start_ind lv) = Some (queue_indY st ! k)"
    using cts len by (simp_all add: rd_def k_def)
  have ms: "mat_set cfg (label_mat st) (queue_indX st ! k) (queue_indY st ! k) (label_count st)
      = Some ((label_mat st)[c := label_count st])"
    using mat_set_eq [OF g] len by (simp add: n_def c_def qcell_def)
  have body: "bfs_body cfg (st, lv) =
      visit_dirs cfg (queue_indX st ! k) (queue_indY st ! k) dirs (st1, lv1)"
    by (simp add: bfs_body_def rdx rdy ms st1_def lv1_def)
  have qc: "qcell cfg st1 = qcell cfg st" by (rule ext) (simp add: qcell_def st1_def)
  have s1: "sizes_ok cfg (st1, lv1)"
    using sz by (simp add: sizes_ok_def st1_def lv1_def)
  have s2: "counters_ok cfg (st1, lv1)"
    using ct run by (simp add: counters_ok_def st1_def lv1_def)
  have s3: "pushed_ok cfg lm0 (st1, lv1)"
    using pu unfolding pushed_ok_def fst_conv snd_conv qc by (simp add: st1_def lv1_def)
  have s4: "frame_ok cfg lm0 (st1, lv1)"
    unfolding frame_ok_def fst_conv snd_conv qc
  proof (intro conjI allI impI)
    show "length lm0 = cells_total cfg" using fr by (simp add: frame_ok_def)
    fix i assume i: "i < cells_total cfg"
    have e1: "nat (queue_end_ind lv1) = e" by (simp add: lv1_def e_def)
    from fr i have old: "label_mat st ! i = lm0 ! i \<or>
        (lm0 ! i = 0 \<and> label_mat st ! i = label_count st \<and> i \<in> qcell cfg st ` {..<e})"
      by (simp add: frame_ok_def e_def)
    have "label_mat st1 ! i = lm0 ! i \<or> (lm0 ! i = 0 \<and> label_mat st1 ! i = label_count st1
        \<and> i \<in> qcell cfg st ` {..<e})"
    proof (cases "i = c")
      case True
      have "c \<in> qcell cfg st ` {..<e}" using ke by (auto simp: c_def)
      then show ?thesis using True lm0c cn len by (simp add: st1_def)
    next
      case False
      then have "label_mat st1 ! i = label_mat st ! i" "label_count st1 = label_count st"
        by (simp_all add: st1_def)
      then show ?thesis using old by auto
    qed
    then show "label_mat st1 ! i = lm0 ! i \<or> (lm0 ! i = 0 \<and> label_mat st1 ! i = label_count st1
        \<and> i \<in> qcell cfg st ` {..<nat (queue_end_ind lv1)})"
      unfolding e1 .
  qed
  have s5: "growing cfg (st1, lv1)"
    unfolding growing_def fst_conv snd_conv qc
  proof (intro conjI allI impI)
    fix j assume "j < nat (queue_end_ind lv1)"
    then have je: "j < e" by (simp add: lv1_def e_def)
    show "label_mat st1 ! qcell cfg st j = label_count st1"
    proof (cases "queue_start_ind lv = 0")
      case True
      with inv have "queue_end_ind lv = 1" by (simp add: bfs_inv_def)
      with je True have "j = k" by (simp add: e_def k_def)
      then show ?thesis using cn len by (simp add: st1_def c_def)
    next
      case False
      with inv je have "label_mat st ! qcell cfg st j = label_count st"
        by (simp add: bfs_inv_def growing_def e_def)
      then show ?thesis using cn len by (simp add: st1_def nth_list_update)
    qed
  next
    from count_zero_update [of c "label_mat st" "label_count st"] cn len L
    have le: "count_list (label_mat st1) 0 \<le> count_list (label_mat st) 0"
      by (simp add: st1_def split: if_splits)
    have nz: "label_mat st1 ! c \<noteq> 0" using cn len L by (simp add: st1_def)
    show "queue_end_ind lv1 + int (count_list (label_mat st1) 0) \<le> int (cells_total cfg)"
    proof (cases "queue_start_ind lv = 0")
      case True
      with inv have "queue_end_ind lv = 1" by (simp add: bfs_inv_def)
      moreover from count_zero_less [of c "label_mat st1"] nz cn len
      have "count_list (label_mat st1) 0 < n" by (simp add: st1_def)
      ultimately show ?thesis by (simp add: lv1_def n_def)
    next
      case False
      with inv have "queue_end_ind lv + int (count_list (label_mat st) 0) \<le> int (cells_total cfg)"
        by (simp add: bfs_inv_def growing_def)
      with le show ?thesis by (simp add: lv1_def)
    qed
  qed
  have q1: "queue_start_ind (snd (st1, lv1)) \<noteq> 0" using cts by (simp add: lv1_def)
  then have i1: "bfs_inv cfg lm0 (st1, lv1)"
    using s1 s2 s3 s4 s5 by (simp add: bfs_inv_def)
  have "kept st st1" by (simp add: kept_def st1_def)
  with visit_dirs_inv [OF g i1 q1, of dirs] body kept_trans [of st st1]
  show ?thesis by auto
qed

lemma bfs_while_inv:
  "bfs_inv cfg lm0 s \<Longrightarrow>
     \<exists>st' lv'. bfs_while cfg s = Some (st', lv') \<and> bfs_inv cfg lm0 (st', lv')
        \<and> queue_start_ind lv' = queue_end_ind lv' \<and> kept (fst s) st'"
proof (induction cfg s rule: bfs_while.induct)
  case (1 cfg st lv)
  show ?case
  proof (cases "0 < queue_size lv")
    case True
    from bfs_body_inv [OF "1.prems" True]
    obtain st1 lv1 where b: "bfs_body cfg (st, lv) = Some (st1, lv1)"
      and i1: "bfs_inv cfg lm0 (st1, lv1)" and k1: "kept st st1" by blast
    from "1.IH" [OF True b refl i1] b True kept_trans [OF k1] show ?thesis
      by (auto simp: bfs_while_run)
  next
    case False
    with "1.prems" have "queue_start_ind lv = queue_end_ind lv"
      by (simp add: bfs_inv_def counters_ok_def)
    with False "1.prems" show ?thesis by (simp add: bfs_while_stop)
  qed
qed


definition wf_state :: "config \<Rightarrow> state \<Rightarrow> bool" where
  "wf_state cfg st \<longleftrightarrow>
     length (range_mat st) = cells_total cfg \<and>
     length (ground_mat st) = cells_total cfg \<and>
     length (label_mat st) = cells_total cfg \<and>
     length (full_cloud st) = cells_total cfg \<and>
     length (full_info_cloud st) = cells_total cfg \<and>
     length (queue_indX st) = cells_total cfg \<and>
     length (queue_indY st) = cells_total cfg \<and>
     length (all_pushed_indX st) = cells_total cfg \<and>
     length (all_pushed_indY st) = cells_total cfg"

lemma grow_inv:
  assumes wf: "wf_state cfg st" and L: "label_count st \<noteq> 0"
    and g: "in_grid cfg row col" and z: "label_mat st ! nat (cell cfg row col) = 0"
  shows "\<exists>st' lv'. grow cfg st row col = Some (st', lv')
           \<and> bfs_inv cfg (label_mat st) (st', lv')
           \<and> queue_start_ind lv' = queue_end_ind lv'
           \<and> st' = st\<lparr>label_mat := label_mat st',
               queue_indX := queue_indX st', queue_indY := queue_indY st',
               all_pushed_indX := all_pushed_indX st', all_pushed_indY := all_pushed_indY st'\<rparr>
           \<and> queue_indX st' ! 0 = row \<and> queue_indY st' ! 0 = col"
proof -
  define n where "n = cells_total cfg"
  define st0 where "st0 = st\<lparr>queue_indX := (queue_indX st)[0 := row],
     queue_indY := (queue_indY st)[0 := col],
     all_pushed_indX := (all_pushed_indX st)[0 := row],
     all_pushed_indY := (all_pushed_indY st)[0 := col]\<rparr>"
  define lv0 where "lv0 = \<lparr>all_pushed_ind_size = 1, queue_start_ind = 0, queue_end_ind = 1,
     queue_size = 1, line_count_flag = replicate (N_SCAN cfg) False\<rparr>"
  from in_grid_cell_nat [OF g] have "nat (cell cfg row col) < n"
    by (simp add: n_def cells_total_def)
  then have n0: "0 < n" by linarith
  from wf have len: "length (queue_indX st) = n" "length (queue_indY st) = n"
    "length (all_pushed_indX st) = n" "length (all_pushed_indY st) = n"
    "length (label_mat st) = n" "length (range_mat st) = n"
    by (simp_all add: wf_state_def n_def)
  have eq: "grow cfg st row col = bfs_while cfg (st0, lv0)"
    using len n0 by (simp add: grow_def wr_def st0_def lv0_def)
  have qc: "qcell cfg st0 0 = nat (cell cfg row col)"
    using len n0 by (simp add: qcell_def st0_def)
  have "sizes_ok cfg (st0, lv0)"
    using len by (simp add: sizes_ok_def st0_def lv0_def n_def)
  moreover have "counters_ok cfg (st0, lv0)"
    using L n0 by (simp add: counters_ok_def st0_def lv0_def n_def)
  moreover have "pushed_ok cfg (label_mat st) (st0, lv0)"
    using g z qc len n0 by (simp add: pushed_ok_def lv0_def) (simp add: st0_def)
  moreover have "frame_ok cfg (label_mat st) (st0, lv0)"
    using len by (simp add: frame_ok_def st0_def n_def)
  ultimately have inv: "bfs_inv cfg (label_mat st) (st0, lv0)"
    by (simp add: bfs_inv_def lv0_def)
  from bfs_while_inv [OF inv] obtain st' lv' where
    w: "bfs_while cfg (st0, lv0) = Some (st', lv')" and
    i: "bfs_inv cfg (label_mat st) (st', lv')" and
    q: "queue_start_ind lv' = queue_end_ind lv'" and k: "kept st0 st'"
    by auto
  from k have "st' = st\<lparr>label_mat := label_mat st',
               queue_indX := queue_indX st', queue_indY := queue_indY st',
               all_pushed_indX := all_pushed_indX st', all_pushed_indY := all_pushed_indY st'\<rparr>"
    unfolding kept_def st0_def by (cases st, cases st') simp
  moreover from k have "queue_indX st' ! 0 = row" "queue_indY st' ! 0 = col"
    using len n0 by (simp_all add: kept_def st0_def)
  ultimately show ?thesis using eq w i q by simp
qed

definition acell :: "config \<Rightarrow> state \<Rightarrow> nat \<Rightarrow> nat" where
  "acell cfg st k = nat (cell cfg (all_pushed_indX st ! k) (all_pushed_indY st ! k))"

lemma mark_invalid_spec:
  "length (label_mat st) = cells_total cfg \<Longrightarrow>
   \<forall>k \<in> set ks. k < length (all_pushed_indX st) \<and> k < length (all_pushed_indY st)
       \<and> in_grid cfg (all_pushed_indX st ! k) (all_pushed_indY st ! k) \<Longrightarrow>
   \<exists>lm. mark_invalid cfg ks st = Some (st\<lparr>label_mat := lm\<rparr>)
       \<and> length lm = cells_total cfg
       \<and> (\<forall>i < cells_total cfg.
             lm ! i = (if i \<in> acell cfg st ` set ks then LABEL_INVALID else label_mat st ! i))"
proof (induction ks arbitrary: st)
  case Nil
  then show ?case by (intro exI [of _ "label_mat st"]) simp
next
  case (Cons k ks)
  define c where "c = acell cfg st k"
  define st1 where "st1 = st\<lparr>label_mat := (label_mat st)[c := LABEL_INVALID]\<rparr>"
  from Cons.prems have k: "k < length (all_pushed_indX st)" "k < length (all_pushed_indY st)"
    and g: "in_grid cfg (all_pushed_indX st ! k) (all_pushed_indY st ! k)" by simp_all
  from in_grid_cell_nat [OF g] have cn: "c < cells_total cfg"
    by (simp add: c_def acell_def cells_total_def)
  have step: "mark_invalid cfg (k # ks) st = mark_invalid cfg ks st1"
    using k mat_set_eq [OF g Cons.prems(1)]
    by (simp add: rd_def st1_def c_def acell_def)
  have ac: "acell cfg st1 = acell cfg st" by (rule ext) (simp add: acell_def st1_def)
  from Cons.IH [of st1] Cons.prems
  obtain lm where m: "mark_invalid cfg ks st1 = Some (st1\<lparr>label_mat := lm\<rparr>)"
    and l: "length lm = cells_total cfg"
    and v: "\<forall>i < cells_total cfg.
             lm ! i = (if i \<in> acell cfg st ` set ks then LABEL_INVALID else label_mat st1 ! i)"
    unfolding ac by (auto simp: st1_def)
  have "\<forall>i < cells_total cfg.
      lm ! i = (if i \<in> acell cfg st ` set (k # ks) then LABEL_INVALID else label_mat st ! i)"
    using v cn Cons.prems(1) by (auto simp: st1_def c_def nth_list_update)
  with step m l show ?case by (intro exI [of _ lm]) (simp add: st1_def)
qed


definition resolved :: "config \<Rightarrow> state \<Rightarrow> state \<Rightarrow> bool" where
  "resolved cfg st st' \<longleftrightarrow>
     (\<forall>i < cells_total cfg.
        label_mat st' ! i = label_mat st ! i \<or>
        (label_mat st ! i = 0 \<and>
         (label_mat st' ! i = LABEL_INVALID \<or>
          (label_count st \<le> label_mat st' ! i \<and> label_mat st' ! i < label_count st'))))
     \<and> label_count st \<le> label_count st'
     \<and> st' = st\<lparr>label_mat := label_mat st', label_count := label_count st',
               queue_indX := queue_indX st', queue_indY := queue_indY st',
               all_pushed_indX := all_pushed_indX st', all_pushed_indY := all_pushed_indY st'\<rparr>"

lemma LabelComponents_spec:
  assumes wf: "wf_state cfg st" and L: "label_count st \<noteq> 0"
    and g: "in_grid cfg row col" and z: "label_mat st ! nat (cell cfg row col) = 0"
  shows "\<exists>st'. LabelComponents cfg st row col = Some st' \<and> wf_state cfg st'
           \<and> (\<forall>i < cells_total cfg.
                 label_mat st' ! i = label_mat st ! i \<or>
                 (label_mat st ! i = 0 \<and>
                  (label_mat st' ! i = LABEL_INVALID \<or>
                   (label_mat st' ! i = label_count st \<and> label_count st' = label_count st + 1))))
           \<and> (label_count st' = label_count st \<or> label_count st' = label_count st + 1)
           \<and> label_mat st' ! nat (cell cfg row col) \<noteq> 0
           \<and> st' = st\<lparr>label_mat := label_mat st', label_count := label_count st',
               queue_indX := queue_indX st', queue_indY := queue_indY st',
               all_pushed_indX := all_pushed_indX st', all_pushed_indY := all_pushed_indY st'\<rparr>"
proof -
  define n where "n = cells_total cfg"
  from grow_inv [OF wf L g z] obtain st1 lv1 where
    gr: "grow cfg st row col = Some (st1, lv1)" and
    inv: "bfs_inv cfg (label_mat st) (st1, lv1)" and
    q: "queue_start_ind lv1 = queue_end_ind lv1" and
    k: "st1 = st\<lparr>label_mat := label_mat st1,
               queue_indX := queue_indX st1, queue_indY := queue_indY st1,
               all_pushed_indX := all_pushed_indX st1, all_pushed_indY := all_pushed_indY st1\<rparr>"
      and seed: "queue_indX st1 ! 0 = row" "queue_indY st1 ! 0 = col"
    by blast
  define e where "e = nat (queue_end_ind lv1)"
  from inv have sz: "sizes_ok cfg (st1, lv1)" and ct: "counters_ok cfg (st1, lv1)"
    and pu: "pushed_ok cfg (label_mat st) (st1, lv1)"
    and fr: "frame_ok cfg (label_mat st) (st1, lv1)"
    by (simp_all add: bfs_inv_def)
  from ct q have qe: "1 \<le> queue_end_ind lv1" "queue_end_ind lv1 \<le> int n"
    and qs: "queue_start_ind lv1 \<noteq> 0"
    and aps: "all_pushed_ind_size lv1 = queue_end_ind lv1"
    by (simp_all add: counters_ok_def n_def)
  then have e1: "1 \<le> e" and en: "e \<le> n" by (simp_all add: e_def)
  from inv qs have gw: "growing cfg (st1, lv1)" by (simp add: bfs_inv_def)
  from k have lc: "label_count st1 = label_count st"
    by (cases st, cases st1) simp
  from k wf sz have wf1: "wf_state cfg st1"
    unfolding wf_state_def sizes_ok_def by (cases st, cases st1) simp
  have qc0: "qcell cfg st1 0 = nat (cell cfg row col)"
    using seed by (simp add: qcell_def)
  have ac: "acell cfg st1 j = qcell cfg st1 j" if "j < e" for j
    using pu that by (simp add: pushed_ok_def acell_def qcell_def e_def)
  show ?thesis
  proof (cases "feasible_segment cfg lv1")
    case True
    define st' where "st' = st1\<lparr>label_count := label_count st1 + 1\<rparr>"
    have r: "LabelComponents cfg st row col = Some st'"
      using gr True by (simp add: LabelComponents_def st'_def)
    have w: "wf_state cfg st'" using wf1 by (simp add: wf_state_def st'_def)
    have f: "\<forall>i < cells_total cfg.
                 label_mat st' ! i = label_mat st ! i \<or>
                 (label_mat st ! i = 0 \<and>
                  (label_mat st' ! i = LABEL_INVALID \<or>
                   (label_mat st' ! i = label_count st \<and> label_count st' = label_count st + 1)))"
      using fr lc by (auto simp: frame_ok_def st'_def)
    from gw e1 have "label_mat st1 ! qcell cfg st1 0 = label_count st1"
      by (simp add: growing_def e_def)
    then have s: "label_mat st' ! nat (cell cfg row col) \<noteq> 0"
      using qc0 lc L by (simp add: st'_def)
    have "st' = st\<lparr>label_mat := label_mat st', label_count := label_count st',
               queue_indX := queue_indX st', queue_indY := queue_indY st',
               all_pushed_indX := all_pushed_indX st', all_pushed_indY := all_pushed_indY st'\<rparr>"
      using k unfolding st'_def by (cases st, cases st1) simp
    with r w f s lc show ?thesis by (intro exI [of _ st']) (simp add: st'_def)
  next
    case False
    have pre: "\<forall>j \<in> set [0..<e]. j < length (all_pushed_indX st1)
        \<and> j < length (all_pushed_indY st1)
        \<and> in_grid cfg (all_pushed_indX st1 ! j) (all_pushed_indY st1 ! j)"
      using pu sz en by (auto simp: pushed_ok_def sizes_ok_def e_def n_def)
    from sz have "length (label_mat st1) = cells_total cfg" by (simp add: sizes_ok_def)
    from mark_invalid_spec [OF this pre] obtain lm where
      m: "mark_invalid cfg [0..<e] st1 = Some (st1\<lparr>label_mat := lm\<rparr>)" and
      l: "length lm = cells_total cfg" and
      v: "\<forall>i < cells_total cfg.
             lm ! i = (if i \<in> acell cfg st1 ` set [0..<e] then LABEL_INVALID
                       else label_mat st1 ! i)"
      by blast
    define st' where "st' = st1\<lparr>label_mat := lm\<rparr>"
    have r: "LabelComponents cfg st row col = Some st'"
      using gr False m aps by (simp add: LabelComponents_def st'_def e_def)
    have w: "wf_state cfg st'" using wf1 l by (simp add: wf_state_def st'_def)
    have f: "\<forall>i < cells_total cfg.
                 label_mat st' ! i = label_mat st ! i \<or>
                 (label_mat st ! i = 0 \<and>
                  (label_mat st' ! i = LABEL_INVALID \<or>
                   (label_mat st' ! i = label_count st \<and> label_count st' = label_count st + 1)))"
    proof (intro allI impI)
      fix i assume i: "i < cells_total cfg"
      show "label_mat st' ! i = label_mat st ! i \<or>
                 (label_mat st ! i = 0 \<and>
                  (label_mat st' ! i = LABEL_INVALID \<or>
                   (label_mat st' ! i = label_count st \<and> label_count st' = label_count st + 1)))"
      proof (cases "i \<in> acell cfg st1 ` set [0..<e]")
        case True
        then obtain j where j: "j < e" "i = acell cfg st1 j" by auto
        with ac [of j] pu have "label_mat st ! i = 0" by (simp add: pushed_ok_def e_def)
        moreover from v i True have "lm ! i = LABEL_INVALID" by simp
        ultimately show ?thesis by (simp add: st'_def)
      next
        case False
        with v i have "lm ! i = label_mat st1 ! i" by simp
        moreover have "label_mat st1 ! i = label_mat st ! i"
        proof (rule ccontr)
          assume ne: "label_mat st1 ! i \<noteq> label_mat st ! i"
          with fr i have "i \<in> qcell cfg st1 ` {..<e}"
            by (auto simp: frame_ok_def e_def)
          then obtain j where j: "j < e" "i = qcell cfg st1 j" by auto
          then have "i = acell cfg st1 j" "j \<in> set [0..<e]" using ac [of j] by simp_all
          then have "i \<in> acell cfg st1 ` set [0..<e]" by blast
          with False show False by simp
        qed
        ultimately show ?thesis by (simp add: st'_def)
      qed
    qed
    have "acell cfg st1 0 \<in> acell cfg st1 ` set [0..<e]" using e1 by auto
    with v ac [of 0] qc0 e1 in_grid_cell_nat [OF g]
    have "lm ! nat (cell cfg row col) = LABEL_INVALID" by (simp add: cells_total_def)
    then have s: "label_mat st' ! nat (cell cfg row col) \<noteq> 0"
      by (simp add: st'_def LABEL_INVALID_def)
    have "st' = st\<lparr>label_mat := label_mat st', label_count := label_count st',
               queue_indX := queue_indX st', queue_indY := queue_indY st',
               all_pushed_indX := all_pushed_indX st', all_pushed_indY := all_pushed_indY st'\<rparr>"
      using k unfolding st'_def by (cases st, cases st1) simp
    with r w f s lc show ?thesis by (intro exI [of _ st']) (simp add: st'_def)
  qed
qed


lemma cell_of_nat [simp]: "nat (cell cfg (int i) (int j)) = i * HORIZON_SCAN cfg + j"
  by (simp add: cell_def nat_add_distrib nat_mult_distrib)

lemma in_grid_of_nat [simp]:
  "in_grid cfg (int i) (int j) \<longleftrightarrow> i < N_SCAN cfg \<and> j < HORIZON_SCAN cfg"
  by (simp add: in_grid_def)

lemma cell_index_less:
  "i < N_SCAN cfg \<Longrightarrow> j < HORIZON_SCAN cfg \<Longrightarrow> i * HORIZON_SCAN cfg + j < cells_total cfg"
  using in_grid_cell_nat [of cfg "int i" "int j"] by (simp add: cells_total_def)

lemma resolved_refl: "resolved cfg st st"
  by (simp add: resolved_def)

lemma resolved_trans:
  assumes a: "resolved cfg st st1" and b: "resolved cfg st1 st2" and L: "0 < label_count st"
  shows "resolved cfg st st2"
proof -
  from a b have le: "label_count st \<le> label_count st1" "label_count st1 \<le> label_count st2"
    by (simp_all add: resolved_def)
  have "label_mat st2 ! i = label_mat st ! i \<or>
        (label_mat st ! i = 0 \<and>
         (label_mat st2 ! i = LABEL_INVALID \<or>
          (label_count st \<le> label_mat st2 ! i \<and> label_mat st2 ! i < label_count st2)))"
    if i: "i < cells_total cfg" for i
  proof -
    from a i have 1: "label_mat st1 ! i = label_mat st ! i \<or>
        (label_mat st ! i = 0 \<and>
         (label_mat st1 ! i = LABEL_INVALID \<or>
          (label_count st \<le> label_mat st1 ! i \<and> label_mat st1 ! i < label_count st1)))"
      by (simp add: resolved_def)
    from b i have 2: "label_mat st2 ! i = label_mat st1 ! i \<or>
        (label_mat st1 ! i = 0 \<and>
         (label_mat st2 ! i = LABEL_INVALID \<or>
          (label_count st1 \<le> label_mat st2 ! i \<and> label_mat st2 ! i < label_count st2)))"
      by (simp add: resolved_def)
    from 1 2 le L show ?thesis by (auto simp: LABEL_INVALID_def)
  qed
  moreover from a b have "st2 = st\<lparr>label_mat := label_mat st2, label_count := label_count st2,
               queue_indX := queue_indX st2, queue_indY := queue_indY st2,
               all_pushed_indX := all_pushed_indX st2, all_pushed_indY := all_pushed_indY st2\<rparr>"
    unfolding resolved_def by (cases st, cases st1, cases st2) simp
  ultimately show ?thesis using le by (simp add: resolved_def)
qed

lemma label_cell_spec:
  assumes wf: "wf_state cfg st" and L: "0 < label_count st"
    and c: "fst c < N_SCAN cfg" "snd c < HORIZON_SCAN cfg"
  shows "\<exists>st'. label_cell cfg c st = Some st' \<and> wf_state cfg st' \<and> resolved cfg st st'
           \<and> label_mat st' ! (fst c * HORIZON_SCAN cfg + snd c) \<noteq> 0"
proof -
  obtain i j where ij: "c = (i, j)" by (cases c)
  with c have g: "in_grid cfg (int i) (int j)" by simp
  from wf have len: "length (label_mat st) = cells_total cfg" by (simp add: wf_state_def)
  note at = mat_at_eq [OF g len]
  show ?thesis
  proof (cases "label_mat st ! (i * HORIZON_SCAN cfg + j) = 0")
    case True
    then have z: "label_mat st ! nat (cell cfg (int i) (int j)) = 0" by simp
    from L have L': "label_count st \<noteq> 0" by simp
    from LabelComponents_spec [OF wf L' g z] obtain st' where
      r: "LabelComponents cfg st (int i) (int j) = Some st'" and w: "wf_state cfg st'"
      and f: "\<forall>i < cells_total cfg.
                 label_mat st' ! i = label_mat st ! i \<or>
                 (label_mat st ! i = 0 \<and>
                  (label_mat st' ! i = LABEL_INVALID \<or>
                   (label_mat st' ! i = label_count st \<and> label_count st' = label_count st + 1)))"
      and lc: "label_count st' = label_count st \<or> label_count st' = label_count st + 1"
      and nz: "label_mat st' ! nat (cell cfg (int i) (int j)) \<noteq> 0"
      and k: "st' = st\<lparr>label_mat := label_mat st', label_count := label_count st',
               queue_indX := queue_indX st', queue_indY := queue_indY st',
               all_pushed_indX := all_pushed_indX st', all_pushed_indY := all_pushed_indY st'\<rparr>"
      by blast
    have "resolved cfg st st'"
      unfolding resolved_def using f lc k by auto
    with r w nz at True ij show ?thesis by (simp add: label_cell_def LABEL_INIT_def)
  next
    case False
    with at ij wf show ?thesis by (simp add: label_cell_def LABEL_INIT_def resolved_refl)
  qed
qed

lemma label_cells_spec:
  "wf_state cfg st \<Longrightarrow> 0 < label_count st \<Longrightarrow>
   \<forall>c \<in> set cs. fst c < N_SCAN cfg \<and> snd c < HORIZON_SCAN cfg \<Longrightarrow>
   \<exists>st'. for_each (label_cell cfg) cs st = Some st' \<and> wf_state cfg st' \<and> resolved cfg st st'
      \<and> (\<forall>c \<in> set cs. label_mat st' ! (fst c * HORIZON_SCAN cfg + snd c) \<noteq> 0)"
proof (induction cs arbitrary: st)
  case Nil
  then show ?case by (simp add: resolved_refl)
next
  case (Cons c cs)
  from Cons.prems have c: "fst c < N_SCAN cfg" "snd c < HORIZON_SCAN cfg" by simp_all
  from label_cell_spec [OF Cons.prems(1,2) c] obtain st1 where
    s1: "label_cell cfg c st = Some st1" and w1: "wf_state cfg st1"
    and r1: "resolved cfg st st1"
    and n1: "label_mat st1 ! (fst c * HORIZON_SCAN cfg + snd c) \<noteq> 0" by blast
  from r1 Cons.prems(2) have L1: "0 < label_count st1" by (simp add: resolved_def)
  from Cons.IH [OF w1 L1] Cons.prems(3) obtain st' where
    s': "for_each (label_cell cfg) cs st1 = Some st'" and w': "wf_state cfg st'"
    and r': "resolved cfg st1 st'"
    and n': "\<forall>c \<in> set cs. label_mat st' ! (fst c * HORIZON_SCAN cfg + snd c) \<noteq> 0"
    by auto
  from r' cell_index_less [OF c] n1
  have "label_mat st' ! (fst c * HORIZON_SCAN cfg + snd c) \<noteq> 0"
    by (auto simp: resolved_def)
  with s1 s' w' n' resolved_trans [OF r1 r' Cons.prems(2)] show ?case by simp
qed

section \<open>The output assembly as a filter over the cells\<close>

text \<open>
  The second and third pass of \<^verbatim>\<open>CloudSegmentation\<close> read the grids and append to the
  clouds; what they append is determined cell by cell.
\<close>

definition label_of :: "config \<Rightarrow> state \<Rightarrow> nat \<times> nat \<Rightarrow> int" where
  "label_of cfg st c = label_mat st ! (fst c * HORIZON_SCAN cfg + snd c)"

definition ground_of :: "config \<Rightarrow> state \<Rightarrow> nat \<times> nat \<Rightarrow> int" where
  "ground_of cfg st c = ground_mat st ! (fst c * HORIZON_SCAN cfg + snd c)"

definition cloud_point :: "config \<Rightarrow> state \<Rightarrow> nat \<times> nat \<Rightarrow> point option" where
  "cloud_point cfg st c = full_cloud st ! (snd c + fst c * HORIZON_SCAN cfg)"

definition is_outlier :: "config \<Rightarrow> state \<Rightarrow> nat \<times> nat \<Rightarrow> bool" where
  "is_outlier cfg st c \<longleftrightarrow>
     label_of cfg st c = LABEL_INVALID \<and> fst c > groundScanInd cfg \<and> snd c mod 5 = 0"

definition is_segmented :: "config \<Rightarrow> state \<Rightarrow> nat \<times> nat \<Rightarrow> bool" where
  "is_segmented cfg st c \<longleftrightarrow>
     (label_of cfg st c > 0 \<or> ground_of cfg st c = 1) \<and> label_of cfg st c \<noteq> LABEL_INVALID \<and>
     \<not> (ground_of cfg st c = 1 \<and> snd c mod 5 \<noteq> 0 \<and> snd c > 5
         \<and> int (snd c) < (int (HORIZON_SCAN cfg) - 5) mod 2 ^ 64)"

definition grids_kept :: "state \<Rightarrow> state \<Rightarrow> bool" where
  "grids_kept st st' \<longleftrightarrow>
     st' = st\<lparr>seg_msg := seg_msg st', outlier_cloud := outlier_cloud st',
               segmented_cloud := segmented_cloud st',
               segmented_cloud_pure := segmented_cloud_pure st'\<rparr>"

lemma grids_kept_refl [simp]: "grids_kept st st"
  by (simp add: grids_kept_def)

lemma grids_kept_trans: "grids_kept st st1 \<Longrightarrow> grids_kept st1 st2 \<Longrightarrow> grids_kept st st2"
  unfolding grids_kept_def by (cases st, cases st1, cases st2) simp

lemma grids_kept_fields:
  assumes "grids_kept st st'"
  shows "label_mat st' = label_mat st" and "ground_mat st' = ground_mat st"
    and "range_mat st' = range_mat st" and "full_cloud st' = full_cloud st"
    and "label_count st' = label_count st" and "wf_state cfg st' = wf_state cfg st"
  using assms unfolding grids_kept_def wf_state_def by (cases st, cases st', simp)+

lemma grids_kept_preds:
  assumes "grids_kept st st'"
  shows "is_outlier cfg st' = is_outlier cfg st" and "is_segmented cfg st' = is_segmented cfg st"
    and "cloud_point cfg st' = cloud_point cfg st"
  using grids_kept_fields [OF assms]
  by (auto simp: is_outlier_def is_segmented_def cloud_point_def label_of_def ground_of_def
      fun_eq_iff)

lemma rd_int: "k < length xs \<Longrightarrow> rd xs (int k) = Some (xs ! k)"
  by (simp add: rd_def)

lemma rd_cloud:
  assumes "i < N_SCAN cfg" and "j < HORIZON_SCAN cfg" and "length xs = cells_total cfg"
  shows "rd xs (int j + int i * int (HORIZON_SCAN cfg)) = Some (xs ! (j + i * HORIZON_SCAN cfg))"
proof -
  from cell_index_less [OF assms(1,2)] assms(3) have "j + i * HORIZON_SCAN cfg < length xs"
    by (simp add: add.commute)
  from rd_int [OF this] show ?thesis by simp
qed

lemma assemble_cell_spec:
  assumes wf: "wf_state cfg st" and i: "i < N_SCAN cfg" and j: "j < HORIZON_SCAN cfg"
  shows "\<exists>st' n'. assemble_cell cfg i j (st, n) = Some (st', n') \<and> grids_kept st st'
     \<and> segmented_cloud_pure st' = segmented_cloud_pure st
     \<and> outlier_cloud st' = outlier_cloud st
          @ map (cloud_point cfg st) (filter (is_outlier cfg st) [(i, j)])
     \<and> segmented_cloud st' = segmented_cloud st
          @ map (cloud_point cfg st) (filter (is_segmented cfg st) [(i, j)])"
proof -
  from i j have g: "in_grid cfg (int i) (int j)" by simp
  from wf have len: "length (label_mat st) = cells_total cfg"
    "length (ground_mat st) = cells_total cfg" "length (range_mat st) = cells_total cfg"
    "length (full_cloud st) = cells_total cfg"
    by (simp_all add: wf_state_def)
  note at = mat_at_eq [OF g len(1)] mat_at_eq [OF g len(2)] mat_at_eq [OF g len(3)]
    rd_cloud [OF i j len(4)]
  show ?thesis
    by (simp add: assemble_cell_def at is_outlier_def is_segmented_def cloud_point_def
        label_of_def ground_of_def grids_kept_def LABEL_INVALID_def)
qed


lemma assemble_cells_spec:
  "wf_state cfg st \<Longrightarrow> i < N_SCAN cfg \<Longrightarrow> \<forall>j \<in> set js. j < HORIZON_SCAN cfg \<Longrightarrow>
   \<exists>st' n'. for_each (assemble_cell cfg i) js (st, n) = Some (st', n') \<and> grids_kept st st'
     \<and> segmented_cloud_pure st' = segmented_cloud_pure st
     \<and> outlier_cloud st' = outlier_cloud st
          @ map (cloud_point cfg st) (filter (is_outlier cfg st) (map (Pair i) js))
     \<and> segmented_cloud st' = segmented_cloud st
          @ map (cloud_point cfg st) (filter (is_segmented cfg st) (map (Pair i) js))"
proof (induction js arbitrary: st n)
  case Nil
  then show ?case by simp
next
  case (Cons j js)
  from Cons.prems have j: "j < HORIZON_SCAN cfg" by simp
  from assemble_cell_spec [OF Cons.prems(1,2) j, of n] obtain st1 n1 where
    a: "assemble_cell cfg i j (st, n) = Some (st1, n1)" and k1: "grids_kept st st1"
    and p1: "segmented_cloud_pure st1 = segmented_cloud_pure st"
    and o1: "outlier_cloud st1 = outlier_cloud st
          @ map (cloud_point cfg st) (filter (is_outlier cfg st) [(i, j)])"
    and s1: "segmented_cloud st1 = segmented_cloud st
          @ map (cloud_point cfg st) (filter (is_segmented cfg st) [(i, j)])"
    by blast
  from grids_kept_fields(6) [OF k1, of cfg] Cons.prems(1) have w1: "wf_state cfg st1" by simp
  note pr = grids_kept_preds [OF k1, of cfg]
  from Cons.IH [OF w1 Cons.prems(2), of n1] Cons.prems(3) obtain st' n' where
    f: "for_each (assemble_cell cfg i) js (st1, n1) = Some (st', n')"
    and k': "grids_kept st1 st'"
    and p': "segmented_cloud_pure st' = segmented_cloud_pure st1"
    and o': "outlier_cloud st' = outlier_cloud st1
          @ map (cloud_point cfg st) (filter (is_outlier cfg st) (map (Pair i) js))"
    and s': "segmented_cloud st' = segmented_cloud st1
          @ map (cloud_point cfg st) (filter (is_segmented cfg st) (map (Pair i) js))"
    unfolding pr by auto
  from a f have "for_each (assemble_cell cfg i) (j # js) (st, n) = Some (st', n')" by simp
  moreover from o1 o' have "outlier_cloud st' = outlier_cloud st
          @ map (cloud_point cfg st) (filter (is_outlier cfg st) (map (Pair i) (j # js)))"
    by simp
  moreover from s1 s' have "segmented_cloud st' = segmented_cloud st
          @ map (cloud_point cfg st) (filter (is_segmented cfg st) (map (Pair i) (j # js)))"
    by simp
  ultimately show ?case using grids_kept_trans [OF k1 k'] p1 p' by auto
qed

lemma assemble_row_spec:
  assumes wf: "wf_state cfg st" and i: "i < N_SCAN cfg"
  shows "\<exists>st' n'. assemble_row cfg i (st, n) = Some (st', n') \<and> grids_kept st st'
     \<and> segmented_cloud_pure st' = segmented_cloud_pure st
     \<and> outlier_cloud st' = outlier_cloud st
          @ map (cloud_point cfg st) (filter (is_outlier cfg st) (cells cfg [i]))
     \<and> segmented_cloud st' = segmented_cloud st
          @ map (cloud_point cfg st) (filter (is_segmented cfg st) (cells cfg [i]))"
proof -
  define st0 where "st0 = st\<lparr>seg_msg := (seg_msg st)
                  \<lparr>startRingIndex := (startRingIndex (seg_msg st))(i \<mapsto> n - 1 + 5)\<rparr>\<rparr>"
  have k0: "grids_kept st st0" by (simp add: grids_kept_def st0_def)
  from grids_kept_fields(6) [OF k0, of cfg] wf have w0: "wf_state cfg st0" by simp
  note pr = grids_kept_preds [OF k0, of cfg]
  from assemble_cells_spec [OF w0 i, of "[0..<HORIZON_SCAN cfg]" n] obtain st1 n1 where
    f: "for_each (assemble_cell cfg i) [0..<HORIZON_SCAN cfg] (st0, n) = Some (st1, n1)"
    and k1: "grids_kept st0 st1"
    and p1: "segmented_cloud_pure st1 = segmented_cloud_pure st0"
    and o1: "outlier_cloud st1 = outlier_cloud st0
          @ map (cloud_point cfg st) (filter (is_outlier cfg st) (map (Pair i) [0..<HORIZON_SCAN cfg]))"
    and s1: "segmented_cloud st1 = segmented_cloud st0
          @ map (cloud_point cfg st) (filter (is_segmented cfg st) (map (Pair i) [0..<HORIZON_SCAN cfg]))"
    unfolding pr by auto
  define st' where "st' = st1\<lparr>seg_msg := (seg_msg st1)
                 \<lparr>endRingIndex := (endRingIndex (seg_msg st1))(i \<mapsto> n1 - 1 - 5)\<rparr>\<rparr>"
  have k': "grids_kept st1 st'" by (simp add: grids_kept_def st'_def)
  have r: "assemble_row cfg i (st, n) = Some (st', n1)"
    using f by (simp add: assemble_row_def st0_def st'_def)
  have c: "cells cfg [i] = map (Pair i) [0..<HORIZON_SCAN cfg]" by (simp add: cells_def)
  from o1 have "outlier_cloud st' = outlier_cloud st
          @ map (cloud_point cfg st) (filter (is_outlier cfg st) (cells cfg [i]))"
    unfolding c by (simp add: st'_def st0_def)
  moreover from s1 have "segmented_cloud st' = segmented_cloud st
          @ map (cloud_point cfg st) (filter (is_segmented cfg st) (cells cfg [i]))"
    unfolding c by (simp add: st'_def st0_def)
  moreover from p1 have "segmented_cloud_pure st' = segmented_cloud_pure st"
    by (simp add: st'_def st0_def)
  ultimately show ?thesis
    using r grids_kept_trans [OF grids_kept_trans [OF k0 k1] k'] by auto
qed

lemma cells_Cons: "cells cfg (i # rows) = cells cfg [i] @ cells cfg rows"
  by (simp add: cells_def)

lemma assemble_rows_spec:
  "wf_state cfg st \<Longrightarrow> \<forall>i \<in> set rows. i < N_SCAN cfg \<Longrightarrow>
   \<exists>st' n'. for_each (assemble_row cfg) rows (st, n) = Some (st', n') \<and> grids_kept st st'
     \<and> segmented_cloud_pure st' = segmented_cloud_pure st
     \<and> outlier_cloud st' = outlier_cloud st
          @ map (cloud_point cfg st) (filter (is_outlier cfg st) (cells cfg rows))
     \<and> segmented_cloud st' = segmented_cloud st
          @ map (cloud_point cfg st) (filter (is_segmented cfg st) (cells cfg rows))"
proof (induction rows arbitrary: st n)
  case Nil
  then show ?case by (simp add: cells_def)
next
  case (Cons i rows)
  from Cons.prems have i: "i < N_SCAN cfg" by simp
  from assemble_row_spec [OF Cons.prems(1) i, of n] obtain st1 n1 where
    a: "assemble_row cfg i (st, n) = Some (st1, n1)" and k1: "grids_kept st st1"
    and p1: "segmented_cloud_pure st1 = segmented_cloud_pure st"
    and o1: "outlier_cloud st1 = outlier_cloud st
          @ map (cloud_point cfg st) (filter (is_outlier cfg st) (cells cfg [i]))"
    and s1: "segmented_cloud st1 = segmented_cloud st
          @ map (cloud_point cfg st) (filter (is_segmented cfg st) (cells cfg [i]))"
    by blast
  from grids_kept_fields(6) [OF k1, of cfg] Cons.prems(1) have w1: "wf_state cfg st1" by simp
  note pr = grids_kept_preds [OF k1, of cfg]
  from Cons.IH [OF w1, of n1] Cons.prems(2) obtain st' n' where
    f: "for_each (assemble_row cfg) rows (st1, n1) = Some (st', n')"
    and k': "grids_kept st1 st'"
    and p': "segmented_cloud_pure st' = segmented_cloud_pure st1"
    and o': "outlier_cloud st' = outlier_cloud st1
          @ map (cloud_point cfg st) (filter (is_outlier cfg st) (cells cfg rows))"
    and s': "segmented_cloud st' = segmented_cloud st1
          @ map (cloud_point cfg st) (filter (is_segmented cfg st) (cells cfg rows))"
    unfolding pr by auto
  from a f have "for_each (assemble_row cfg) (i # rows) (st, n) = Some (st', n')" by simp
  moreover from o1 o' have "outlier_cloud st' = outlier_cloud st
          @ map (cloud_point cfg st) (filter (is_outlier cfg st) (cells cfg (i # rows)))"
    unfolding cells_Cons [of cfg i rows] by simp
  moreover from s1 s' have "segmented_cloud st' = segmented_cloud st
          @ map (cloud_point cfg st) (filter (is_segmented cfg st) (cells cfg (i # rows)))"
    unfolding cells_Cons [of cfg i rows] by simp
  ultimately show ?case using grids_kept_trans [OF k1 k'] p1 p' by auto
qed

lemma assemble_all_spec:
  assumes wf: "wf_state cfg st"
  shows "\<exists>st'. assemble_all cfg st = Some st' \<and> grids_kept st st'
     \<and> segmented_cloud_pure st' = segmented_cloud_pure st
     \<and> outlier_cloud st' = outlier_cloud st
          @ map (cloud_point cfg st) (filter (is_outlier cfg st) (cells cfg [0..<N_SCAN cfg]))
     \<and> segmented_cloud st' = segmented_cloud st
          @ map (cloud_point cfg st) (filter (is_segmented cfg st) (cells cfg [0..<N_SCAN cfg]))"
  using assemble_rows_spec [OF wf, of "[0..<N_SCAN cfg]" 0]
  by (auto simp: assemble_all_def)

lemma collect_pure_spec:
  assumes wf: "wf_state cfg st" and c: "fst c < N_SCAN cfg" "snd c < HORIZON_SCAN cfg"
  shows "\<exists>st'. collect_pure cfg c st = Some st' \<and> grids_kept st st'"
proof -
  obtain i j where ij: "c = (i, j)" by (cases c)
  with c have i: "i < N_SCAN cfg" and j: "j < HORIZON_SCAN cfg" by simp_all
  then have g: "in_grid cfg (int i) (int j)" by simp
  from wf have len: "length (label_mat st) = cells_total cfg"
    "length (full_cloud st) = cells_total cfg"
    by (simp_all add: wf_state_def)
  note at = mat_at_eq [OF g len(1)] rd_cloud [OF i j len(2)]
  show ?thesis
    by (simp add: collect_pure_def ij at grids_kept_def)
qed

lemma collect_pures_spec:
  "wf_state cfg st \<Longrightarrow> \<forall>c \<in> set cs. fst c < N_SCAN cfg \<and> snd c < HORIZON_SCAN cfg \<Longrightarrow>
     \<exists>st'. for_each (collect_pure cfg) cs st = Some st' \<and> grids_kept st st'"
proof (induction cs arbitrary: st)
  case Nil
  then show ?case by simp
next
  case (Cons c cs)
  from collect_pure_spec [OF Cons.prems(1), of c] Cons.prems(2) obtain st1 where
    a: "collect_pure cfg c st = Some st1" and k1: "grids_kept st st1" by auto
  from grids_kept_fields(6) [OF k1, of cfg] Cons.prems(1) have w1: "wf_state cfg st1" by simp
  from Cons.IH [OF w1] Cons.prems(2) obtain st' where
    "for_each (collect_pure cfg) cs st1 = Some st'" "grids_kept st1 st'" by auto
  with a grids_kept_trans [OF k1] show ?case by auto
qed

lemma cells_in_grid:
  "c \<in> set (cells cfg [0..<n]) \<longleftrightarrow> fst c < n \<and> snd c < HORIZON_SCAN cfg"
  by (cases c) (auto simp: cells_def)

section \<open>The segmentation as a whole\<close>

lemma CloudSegmentation_resolves:
  assumes wf: "wf_state cfg st" and L: "0 < label_count st"
  shows "\<exists>st'. CloudSegmentation cfg st = Some st' \<and>
     (\<forall>i < N_SCAN cfg. \<forall>j < HORIZON_SCAN cfg.
        label_of cfg st' (i, j) \<noteq> 0 \<and>
        (label_of cfg st (i, j) \<noteq> 0 \<longrightarrow> label_of cfg st' (i, j) = label_of cfg st (i, j)) \<and>
        (label_of cfg st (i, j) = 0 \<longrightarrow>
           label_of cfg st' (i, j) = LABEL_INVALID \<or>
           (label_count st \<le> label_of cfg st' (i, j) \<and>
            label_of cfg st' (i, j) < label_count st')))"
proof -
  have inb: "\<forall>c \<in> set (cells cfg [0..<N_SCAN cfg]). fst c < N_SCAN cfg \<and> snd c < HORIZON_SCAN cfg"
    by (simp add: cells_in_grid)
  from label_cells_spec [OF wf L inb] obtain st1 where
    l: "label_all cfg st = Some st1" and w1: "wf_state cfg st1" and r: "resolved cfg st st1"
    and nz: "\<forall>c \<in> set (cells cfg [0..<N_SCAN cfg]).
               label_mat st1 ! (fst c * HORIZON_SCAN cfg + snd c) \<noteq> 0"
    by (auto simp: label_all_def)
  from assemble_all_spec [OF w1] obtain st2 where
    a: "assemble_all cfg st1 = Some st2" and k2: "grids_kept st1 st2" by blast
  from grids_kept_fields(6) [OF k2, of cfg] w1 have w2: "wf_state cfg st2" by simp
  from collect_pures_spec [OF w2 inb] obtain st' where
    c: "for_each (collect_pure cfg) (cells cfg [0..<N_SCAN cfg]) st2 = Some st'"
    and k': "grids_kept st2 st'" by blast
  have k: "grids_kept st1 st'" by (rule grids_kept_trans [OF k2 k'])
  have run: "CloudSegmentation cfg st = Some st'"
    using l a c by (simp add: CloudSegmentation_def)
  have lm: "label_mat st' = label_mat st1" and lc: "label_count st' = label_count st1"
    using grids_kept_fields [OF k] by simp_all
  have "label_of cfg st' (i, j) \<noteq> 0 \<and>
        (label_of cfg st (i, j) \<noteq> 0 \<longrightarrow> label_of cfg st' (i, j) = label_of cfg st (i, j)) \<and>
        (label_of cfg st (i, j) = 0 \<longrightarrow>
           label_of cfg st' (i, j) = LABEL_INVALID \<or>
           (label_count st \<le> label_of cfg st' (i, j) \<and>
            label_of cfg st' (i, j) < label_count st'))"
    if i: "i < N_SCAN cfg" and j: "j < HORIZON_SCAN cfg" for i j
  proof -
    from i j have "(i, j) \<in> set (cells cfg [0..<N_SCAN cfg])" by (simp add: cells_in_grid)
    with nz have 1: "label_mat st1 ! (i * HORIZON_SCAN cfg + j) \<noteq> 0" by force
    from r cell_index_less [OF i j]
    have 2: "label_mat st1 ! (i * HORIZON_SCAN cfg + j) = label_mat st ! (i * HORIZON_SCAN cfg + j) \<or>
        (label_mat st ! (i * HORIZON_SCAN cfg + j) = 0 \<and>
         (label_mat st1 ! (i * HORIZON_SCAN cfg + j) = LABEL_INVALID \<or>
          (label_count st \<le> label_mat st1 ! (i * HORIZON_SCAN cfg + j)
           \<and> label_mat st1 ! (i * HORIZON_SCAN cfg + j) < label_count st1)))"
      by (simp add: resolved_def)
    from 1 2 show ?thesis by (auto simp: label_of_def lm lc)
  qed
  with run show ?thesis by blast
qed

section \<open>A frame from projection to reset\<close>

text \<open>
  Projection and ground removal write the grids and the dense clouds inside their bounds
  and leave the label counter alone, so a frame that passes the validation of its sweep
  is processed to the end.
\<close>

definition frame_kept :: "state \<Rightarrow> state \<Rightarrow> bool" where
  "frame_kept st st' \<longleftrightarrow>
     st' = st\<lparr>range_mat := range_mat st', ground_mat := ground_mat st',
               label_mat := label_mat st', full_cloud := full_cloud st',
               full_info_cloud := full_info_cloud st', ground_cloud := ground_cloud st'\<rparr>
     \<and> length (range_mat st') = length (range_mat st)
     \<and> length (ground_mat st') = length (ground_mat st)
     \<and> length (label_mat st') = length (label_mat st)
     \<and> length (full_cloud st') = length (full_cloud st)
     \<and> length (full_info_cloud st') = length (full_info_cloud st)"

lemma frame_kept_refl [simp]: "frame_kept st st"
  by (simp add: frame_kept_def)

lemma frame_kept_trans: "frame_kept st st1 \<Longrightarrow> frame_kept st1 st2 \<Longrightarrow> frame_kept st st2"
  unfolding frame_kept_def by (cases st, cases st1, cases st2) simp

lemma frame_kept_fields:
  assumes "frame_kept st st'"
  shows "label_count st' = label_count st" and "wf_state cfg st' = wf_state cfg st"
    and "laser_cloud_in st' = laser_cloud_in st"
    and "laser_cloud_in_ring st' = laser_cloud_in_ring st"
    and "published st' = published st"
  using assms unfolding frame_kept_def wf_state_def by (cases st, cases st', simp)+

lemma for_each_kept:
  assumes step: "\<And>i s. i \<in> set is \<Longrightarrow> P s \<Longrightarrow> \<exists>s'. f i s = Some s' \<and> P s' \<and> R s s'"
    and refl: "\<And>s. R s s" and trans: "\<And>a b c. R a b \<Longrightarrow> R b c \<Longrightarrow> R a c"
  shows "P s \<Longrightarrow> \<exists>s'. for_each f is s = Some s' \<and> P s' \<and> R s s'"
  using step
proof (induction "is" arbitrary: s)
  case Nil
  then show ?case by (simp add: refl)
next
  case (Cons i "is")
  from Cons.prems(2) [of i s] Cons.prems(1) obtain s1 where
    1: "f i s = Some s1" "P s1" "R s s1" by auto
  from Cons.IH [OF 1(2)] Cons.prems(2) obtain s' where
    2: "for_each f is s1 = Some s'" "P s'" "R s1 s'" by auto
  from 1 2 trans [OF 1(3) 2(3)] show ?case by auto
qed

lemma project_point_spec:
  assumes wf: "wf_state cfg st" and i: "i < length (laser_cloud_in st)"
    and ring: "use_cloud_ring cfg \<longrightarrow> i < length (laser_cloud_in_ring st)"
  shows "\<exists>st'. project_point cfg i st = Some st' \<and> frame_kept st st'"
proof -
  define p where "p = laser_cloud_in st ! i"
  define r where "r = (if use_cloud_ring cfg then laser_cloud_in_ring st ! i
                       else to_size_t (row_bucket cfg p))"
  define c0 where "c0 = to_size_t (column_bucket cfg p)"
  define c where "c = (if c0 \<ge> HORIZON_SCAN cfg then c0 - HORIZON_SCAN cfg else c0)"
  from wf have len: "length (range_mat st) = cells_total cfg"
    "length (full_cloud st) = cells_total cfg" "length (full_info_cloud st) = cells_total cfg"
    by (simp_all add: wf_state_def)
  have rdp: "rd (laser_cloud_in st) (int i) = Some p"
    using i by (simp add: rd_def p_def)
  have rdr: "(if use_cloud_ring cfg then rd (laser_cloud_in_ring st) (int i)
                 else Some (to_size_t (row_bucket cfg p))) = Some r"
    using ring by (simp add: rd_def r_def)
  show ?thesis
  proof (cases "r < N_SCAN cfg \<and> c < HORIZON_SCAN cfg")
    case True
    then have g: "in_grid cfg (int r) (int c)" by simp
    from True have rc: "r < N_SCAN cfg" "c < HORIZON_SCAN cfg" by simp_all
    from cell_index_less [OF rc] have k: "c + r * HORIZON_SCAN cfg < cells_total cfg"
      by (simp add: add.commute)
    have w: "wr xs (int c + int r * int (HORIZON_SCAN cfg)) v
        = Some (xs[c + r * HORIZON_SCAN cfg := v])" if "length xs = cells_total cfg" for xs :: "point option list" and v
    proof -
      have "wr xs (int (c + r * HORIZON_SCAN cfg)) v = Some (xs[c + r * HORIZON_SCAN cfg := v])"
        using k that unfolding wr_def by (simp del: of_nat_add of_nat_mult)
      then show ?thesis by simp
    qed
    show ?thesis
      using True
      by (simp add: project_point_def rdp rdr Let_def c_def [symmetric] c0_def [symmetric]
          mat_set_eq [OF g len(1)] w [OF len(2)] w [OF len(3)] frame_kept_def)
  next
    case False
    then show ?thesis
      by (auto simp: project_point_def rdp rdr Let_def c_def [symmetric] c0_def [symmetric])
  qed
qed


lemma cells_mem: "(i, j) \<in> set (cells cfg rows) \<longleftrightarrow> i \<in> set rows \<and> j < HORIZON_SCAN cfg"
  by (auto simp: cells_def)

lemma ProjectPointCloud_spec:
  assumes wf: "wf_state cfg st"
    and ring: "use_cloud_ring cfg \<longrightarrow> length (laser_cloud_in st) \<le> length (laser_cloud_in_ring st)"
  shows "\<exists>st'. ProjectPointCloud cfg st = Some st' \<and> frame_kept st st'"
proof -
  define P where "P = (\<lambda>s. wf_state cfg s \<and> laser_cloud_in s = laser_cloud_in st
     \<and> laser_cloud_in_ring s = laser_cloud_in_ring st)"
  have "\<exists>s'. for_each (project_point cfg) [0..<length (laser_cloud_in st)] st = Some s'
      \<and> P s' \<and> frame_kept st s'"
  proof (rule for_each_kept [where P = P and R = frame_kept])
    fix i s assume i: "i \<in> set [0..<length (laser_cloud_in st)]" and p: "P s"
    from project_point_spec [of cfg s i] i p ring obtain s' where
      1: "project_point cfg i s = Some s'" "frame_kept s s'"
      by (auto simp: P_def)
    with p frame_kept_fields [OF 1(2)] show
      "\<exists>s'. project_point cfg i s = Some s' \<and> P s' \<and> frame_kept s s'"
      by (auto simp: P_def)
  next
    show "P st" using wf by (simp add: P_def)
  qed (auto intro: frame_kept_trans)
  then show ?thesis by (auto simp: ProjectPointCloud_def)
qed

lemma ground_pair_eq:
  assumes wf: "wf_state cfg st" and i: "i + 1 < N_SCAN cfg" and j: "j < HORIZON_SCAN cfg"
  shows "ground_pair cfg (i, j) st =
     (let lower = full_cloud st ! (j + i * HORIZON_SCAN cfg);
          upper = full_cloud st ! (j + (i + 1) * HORIZON_SCAN cfg)
      in if IsNaN lower \<or> IsNaN upper
         then Some (st\<lparr>ground_mat := (ground_mat st)[i * HORIZON_SCAN cfg + j := -1]\<rparr>)
         else if \<bar>slope_angle (the lower) (the upper) - sensor_mount_angle cfg\<bar> \<le> 10
         then Some (st\<lparr>ground_mat := (ground_mat st)
                      [i * HORIZON_SCAN cfg + j := 1, (i + 1) * HORIZON_SCAN cfg + j := 1]\<rparr>)
         else Some st)"
proof -
  from i have i0: "i < N_SCAN cfg" by simp
  from i0 j have g0: "in_grid cfg (int i) (int j)" by simp
  from i j have g1: "in_grid cfg (int (i + 1)) (int j)" by (simp add: in_grid_def)
  from wf have len: "length (ground_mat st) = cells_total cfg"
    "length (full_cloud st) = cells_total cfg"
    by (simp_all add: wf_state_def)
  have len': "length ((ground_mat st)[i * HORIZON_SCAN cfg + j := 1]) = cells_total cfg"
    using len by simp
  have k0: "j + i * HORIZON_SCAN cfg < length (full_cloud st)"
    using cell_index_less [OF i0 j] len by (simp add: add.commute)
  have k1: "j + (i + 1) * HORIZON_SCAN cfg < length (full_cloud st)"
    using cell_index_less [OF i j] len by (simp add: add.commute)
  note r0 = rd_int [OF k0] and r1 = rd_int [OF k1]
  have c1: "nat (cell cfg (int (i + 1)) (int j)) = (i + 1) * HORIZON_SCAN cfg + j"
    by (rule cell_of_nat)
  have m0: "mat_set cfg (ground_mat st) (int i) (int j) v
      = Some ((ground_mat st)[i * HORIZON_SCAN cfg + j := v])" for v
    using mat_set_eq [OF g0 len(1), of v] by simp
  have m1: "mat_set cfg ((ground_mat st)[i * HORIZON_SCAN cfg + j := 1]) (int (i + 1)) (int j) v
      = Some ((ground_mat st)[i * HORIZON_SCAN cfg + j := 1, (i + 1) * HORIZON_SCAN cfg + j := v])"
    for v
    using mat_set_eq [OF g1 len', of v] unfolding c1 .
  show ?thesis
    unfolding ground_pair_def mark_no_return_def prod.case Let_def r0 r1 m0 m1 Option.bind.simps
    by auto
qed






text \<open>
  The first pass of \<^verbatim>\<open>GroundRemoval\<close> visits the pairs row by row, so a pair is visited
  after the pair below it and before the pair above it; \<open>marks cfg st D\<close> is the ground
  matrix when the pairs \<open>D\<close> have been visited. The second and the third pass leave
  the ground matrix as it is.
\<close>

definition no_return :: "config \<Rightarrow> state \<Rightarrow> nat \<Rightarrow> nat \<Rightarrow> bool" where
  "no_return cfg st i j \<longleftrightarrow> IsNaN (full_cloud st ! (j + i * HORIZON_SCAN cfg))"

definition level_pair :: "config \<Rightarrow> state \<Rightarrow> nat \<Rightarrow> nat \<Rightarrow> bool" where
  "level_pair cfg st i j \<longleftrightarrow>
     \<not> no_return cfg st i j \<and> \<not> no_return cfg st (i + 1) j \<and>
     \<bar>slope_angle (the (full_cloud st ! (j + i * HORIZON_SCAN cfg)))
                  (the (full_cloud st ! (j + (i + 1) * HORIZON_SCAN cfg)))
      - sensor_mount_angle cfg\<bar> \<le> 10"

definition marks :: "config \<Rightarrow> state \<Rightarrow> (nat \<times> nat) set \<Rightarrow> nat \<times> nat \<Rightarrow> int" where
  "marks cfg st D c =
     (if c \<in> D \<and> (no_return cfg st (fst c) (snd c) \<or> no_return cfg st (fst c + 1) (snd c))
      then - 1
      else if c \<in> D \<and> level_pair cfg st (fst c) (snd c) then 1
      else if 0 < fst c \<and> (fst c - 1, snd c) \<in> D \<and> level_pair cfg st (fst c - 1) (snd c)
      then 1
      else ground_of cfg st c)"

lemma cell_index_inj:
  assumes "j < HORIZON_SCAN cfg" and "j' < HORIZON_SCAN cfg"
    and "i * HORIZON_SCAN cfg + j = i' * HORIZON_SCAN cfg + j'"
  shows "i = i' \<and> j = j'"
proof -
  from assms(1) have h: "0 < HORIZON_SCAN cfg" by simp
  have "(i * HORIZON_SCAN cfg + j) div HORIZON_SCAN cfg = i" using assms(1) by simp
  moreover have "(i' * HORIZON_SCAN cfg + j') div HORIZON_SCAN cfg = i'" using assms(2) by simp
  ultimately have "i = i'" using assms(3) by simp
  with assms(3) show ?thesis by simp
qed

lemma nth_update_cell:
  assumes "i * HORIZON_SCAN cfg + j < length gm" and "j < HORIZON_SCAN cfg"
    and "snd c < HORIZON_SCAN cfg"
  shows "gm[i * HORIZON_SCAN cfg + j := v] ! (fst c * HORIZON_SCAN cfg + snd c)
       = (if c = (i, j) then v else gm ! (fst c * HORIZON_SCAN cfg + snd c))"
proof (cases "c = (i, j)")
  case True
  with assms(1) show ?thesis by simp
next
  case False
  have "fst c * HORIZON_SCAN cfg + snd c \<noteq> i * HORIZON_SCAN cfg + j"
  proof
    assume "fst c * HORIZON_SCAN cfg + snd c = i * HORIZON_SCAN cfg + j"
    from cell_index_inj [OF assms(3,2) this] False show False by (cases c) simp
  qed
  with False show ?thesis by simp
qed

lemma ground_pair_step:
  assumes wf: "wf_state cfg s" and i: "i + 1 < N_SCAN cfg" and j: "j < HORIZON_SCAN cfg"
  shows "\<exists>s'. ground_pair cfg (i, j) s = Some s' \<and> frame_kept s s'
     \<and> full_cloud s' = full_cloud s \<and> label_mat s' = label_mat s \<and> range_mat s' = range_mat s
     \<and> ground_cloud s' = ground_cloud s
     \<and> (\<forall>c. snd c < HORIZON_SCAN cfg \<longrightarrow>
           ground_of cfg s' c =
             (if c = (i, j)
              then (if no_return cfg s i j \<or> no_return cfg s (i + 1) j then - 1
                    else if level_pair cfg s i j then 1 else ground_of cfg s c)
              else if c = (i + 1, j) \<and> level_pair cfg s i j then 1
              else ground_of cfg s c))"
proof -
  from wf have len: "length (ground_mat s) = cells_total cfg" by (simp add: wf_state_def)
  from i have i0: "i < N_SCAN cfg" by simp
  have k0: "i * HORIZON_SCAN cfg + j < length (ground_mat s)"
    using cell_index_less [OF i0 j] len by simp
  have k1: "(i + 1) * HORIZON_SCAN cfg + j < length (ground_mat s)"
    using cell_index_less [OF i j] len by simp
  have k1': "(i + 1) * HORIZON_SCAN cfg + j
      < length ((ground_mat s)[i * HORIZON_SCAN cfg + j := 1])"
    using k1 by simp
  show ?thesis
  proof (cases "no_return cfg s i j \<or> no_return cfg s (i + 1) j")
    case True
    define s' where "s' = s\<lparr>ground_mat := (ground_mat s)[i * HORIZON_SCAN cfg + j := -1]\<rparr>"
    from True have r: "ground_pair cfg (i, j) s = Some s'"
      unfolding ground_pair_eq [OF assms] s'_def by (auto simp: Let_def no_return_def)
    have g: "ground_of cfg s' c = (if c = (i, j) then - 1 else ground_of cfg s c)"
      if "snd c < HORIZON_SCAN cfg" for c
      unfolding ground_of_def s'_def using nth_update_cell [OF k0 j that] by simp
    have nl: "\<not> level_pair cfg s i j" using True by (auto simp: level_pair_def)
    have "frame_kept s s'" by (simp add: frame_kept_def s'_def)
    with r g True nl show ?thesis by (intro exI [of _ s']) (simp add: s'_def)
  next
    case False
    show ?thesis
    proof (cases "level_pair cfg s i j")
      case True
      define s' where "s' = s\<lparr>ground_mat := (ground_mat s)
                [i * HORIZON_SCAN cfg + j := 1, (i + 1) * HORIZON_SCAN cfg + j := 1]\<rparr>"
      from True False have r: "ground_pair cfg (i, j) s = Some s'"
        unfolding ground_pair_eq [OF assms] s'_def
        by (auto simp: Let_def no_return_def level_pair_def)
      have g: "ground_of cfg s' c
          = (if c = (i + 1, j) then 1 else if c = (i, j) then 1 else ground_of cfg s c)"
        if "snd c < HORIZON_SCAN cfg" for c
        unfolding ground_of_def s'_def
        using nth_update_cell [OF k1' j that, of 1] nth_update_cell [OF k0 j that, of 1]
        by simp
      have "frame_kept s s'" by (simp add: frame_kept_def s'_def)
      with r g True False show ?thesis by (intro exI [of _ s']) (auto simp: s'_def)
    next
      case nl: False
      with False have "ground_pair cfg (i, j) s = Some s"
        unfolding ground_pair_eq [OF assms] by (auto simp: Let_def no_return_def level_pair_def)
      then show ?thesis using False nl by auto
    qed
  qed
qed


lemma marks_cong:
  assumes "full_cloud s = full_cloud s0"
  shows "no_return cfg s = no_return cfg s0" and "level_pair cfg s = level_pair cfg s0"
  using assms by (simp_all add: no_return_def level_pair_def fun_eq_iff)

lemma marks_step:
  assumes D: "(i, j) \<notin> D" "(Suc i, j) \<notin> D"
    and inv: "\<forall>c. snd c < HORIZON_SCAN cfg \<longrightarrow> ground_of cfg s c = marks cfg s0 D c"
    and c: "snd c < HORIZON_SCAN cfg"
  shows "(if c = (i, j)
          then (if no_return cfg s0 i j \<or> no_return cfg s0 (i + 1) j then - 1
                else if level_pair cfg s0 i j then 1 else ground_of cfg s c)
          else if c = (i + 1, j) \<and> level_pair cfg s0 i j then 1
          else ground_of cfg s c) = marks cfg s0 (insert (i, j) D) c"
proof -
  from inv [rule_format, OF c] have g: "ground_of cfg s c = marks cfg s0 D c" .
  consider (a) "c = (i, j)" | (b) "c = (Suc i, j)" | (o) "c \<noteq> (i, j)" "c \<noteq> (Suc i, j)" by blast
  then show ?thesis
  proof cases
    case a
    have "(i - 1, j) \<noteq> (i, j)" if "0 < i" using that by simp
    with a D g show ?thesis by (auto simp: marks_def)
  next
    case b
    with D g show ?thesis by (auto simp: marks_def)
  next
    case o
    have "(fst c - 1, snd c) \<noteq> (i, j)" if "0 < fst c"
    proof
      assume "(fst c - 1, snd c) = (i, j)"
      with that have "c = (Suc i, j)" by (cases c) auto
      with o show False by simp
    qed
    with o g show ?thesis by (auto simp: marks_def)
  qed
qed

lemma ground_pairs_marks:
  assumes "sorted_wrt (\<lambda>a b. a \<noteq> b \<and> a \<noteq> (Suc (fst b), snd b)) cs"
    and "\<forall>c \<in> set cs. c \<notin> D \<and> (Suc (fst c), snd c) \<notin> D
           \<and> Suc (fst c) < N_SCAN cfg \<and> snd c < HORIZON_SCAN cfg"
    and "wf_state cfg s" and "full_cloud s = full_cloud s0"
    and "\<forall>c. snd c < HORIZON_SCAN cfg \<longrightarrow> ground_of cfg s c = marks cfg s0 D c"
  shows "\<exists>s'. for_each (ground_pair cfg) cs s = Some s' \<and> frame_kept s s'
     \<and> full_cloud s' = full_cloud s0
     \<and> (\<forall>c. snd c < HORIZON_SCAN cfg \<longrightarrow> ground_of cfg s' c = marks cfg s0 (D \<union> set cs) c)"
  using assms
proof (induction cs arbitrary: s D)
  case Nil
  then show ?case by simp
next
  case (Cons a cs)
  obtain i j where a: "a = (i, j)" by (cases a)
  from Cons.prems(2) a have D: "(i, j) \<notin> D" "(Suc i, j) \<notin> D"
    and ij: "i + 1 < N_SCAN cfg" "j < HORIZON_SCAN cfg" by simp_all
  from ground_pair_step [OF Cons.prems(3) ij] obtain s1 where
    1: "ground_pair cfg (i, j) s = Some s1" "frame_kept s s1" "full_cloud s1 = full_cloud s"
    and g1: "\<forall>c. snd c < HORIZON_SCAN cfg \<longrightarrow>
           ground_of cfg s1 c =
             (if c = (i, j)
              then (if no_return cfg s i j \<or> no_return cfg s (i + 1) j then - 1
                    else if level_pair cfg s i j then 1 else ground_of cfg s c)
              else if c = (i + 1, j) \<and> level_pair cfg s i j then 1
              else ground_of cfg s c)"
    by blast
  note cg = marks_cong [OF Cons.prems(4), of cfg]
  have inv1: "\<forall>c. snd c < HORIZON_SCAN cfg \<longrightarrow>
      ground_of cfg s1 c = marks cfg s0 (insert (i, j) D) c"
  proof (intro allI impI)
    fix c :: "nat \<times> nat" assume c: "snd c < HORIZON_SCAN cfg"
    from g1 [rule_format, OF c] marks_step [OF D Cons.prems(5) c] show
      "ground_of cfg s1 c = marks cfg s0 (insert (i, j) D) c"
      unfolding cg by (rule trans)
  qed
  from frame_kept_fields(2) [OF 1(2), of cfg] Cons.prems(3) have w1: "wf_state cfg s1" by simp
  from 1(3) Cons.prems(4) have f1: "full_cloud s1 = full_cloud s0" by simp
  from Cons.prems(1) have srt: "sorted_wrt (\<lambda>a b. a \<noteq> b \<and> a \<noteq> (Suc (fst b), snd b)) cs"
    and fresh: "\<forall>c \<in> set cs. (i, j) \<noteq> c \<and> (i, j) \<noteq> (Suc (fst c), snd c)"
    by (simp_all add: a)
  have pre: "\<forall>c \<in> set cs. c \<notin> insert (i, j) D \<and> (Suc (fst c), snd c) \<notin> insert (i, j) D
           \<and> Suc (fst c) < N_SCAN cfg \<and> snd c < HORIZON_SCAN cfg"
    using Cons.prems(2) fresh by auto
  from Cons.IH [OF srt pre w1 f1 inv1] obtain s' where
    2: "for_each (ground_pair cfg) cs s1 = Some s'" "frame_kept s1 s'"
       "full_cloud s' = full_cloud s0"
       "\<forall>c. snd c < HORIZON_SCAN cfg \<longrightarrow>
          ground_of cfg s' c = marks cfg s0 (insert (i, j) D \<union> set cs) c"
    by blast
  have "D \<union> set (a # cs) = insert (i, j) D \<union> set cs" by (simp add: a)
  with 1 2 frame_kept_trans [OF 1(2) 2(2)] show ?case by (simp add: a)
qed

lemma product_sorted:
  assumes "sorted_wrt (<) xs" and "sorted_wrt (<) ys"
  shows "sorted_wrt (\<lambda>a b. fst a < fst b \<or> (fst a = fst b \<and> snd a < snd b))
           (List.product (xs :: nat list) (ys :: nat list))"
  using assms(1)
proof (induction xs)
  case Nil
  then show ?case by simp
next
  case (Cons x xs)
  then show ?case using assms(2)
    by (auto simp: sorted_wrt_append sorted_wrt_map)
qed

lemma cells_sorted:
  "sorted_wrt (\<lambda>a b. a \<noteq> b \<and> a \<noteq> (Suc (fst b), snd b)) (cells cfg [0..<n])"
proof -
  have "sorted_wrt (\<lambda>a b. fst a < fst b \<or> (fst a = fst b \<and> snd a < snd b))
      (cells cfg [0..<n])"
    unfolding cells_def by (rule product_sorted) simp_all
  then show ?thesis by (rule sorted_wrt_mono_rel [rotated]) auto
qed

lemma exclude_cell_keeps:
  assumes wf: "wf_state cfg st" and i: "i < N_SCAN cfg" and j: "j < HORIZON_SCAN cfg"
  shows "\<exists>st'. exclude_cell cfg (i, j) st = Some st' \<and> frame_kept st st'
     \<and> ground_mat st' = ground_mat st \<and> full_cloud st' = full_cloud st"
proof -
  from i j have g: "in_grid cfg (int i) (int j)" by simp
  from wf have len: "length (ground_mat st) = cells_total cfg"
    "length (range_mat st) = cells_total cfg" "length (label_mat st) = cells_total cfg"
    by (simp_all add: wf_state_def)
  show ?thesis
    by (simp add: exclude_cell_def mat_at_eq [OF g len(1)] mat_at_eq [OF g len(2)]
        mat_set_eq [OF g len(3)] frame_kept_def)
qed

lemma collect_ground_keeps:
  assumes wf: "wf_state cfg st" and i: "i < N_SCAN cfg" and j: "j < HORIZON_SCAN cfg"
  shows "\<exists>st'. collect_ground cfg (i, j) st = Some st' \<and> frame_kept st st'
     \<and> ground_mat st' = ground_mat st \<and> full_cloud st' = full_cloud st"
proof -
  from i j have g: "in_grid cfg (int i) (int j)" by simp
  from wf have len: "length (ground_mat st) = cells_total cfg"
    "length (full_cloud st) = cells_total cfg"
    by (simp_all add: wf_state_def)
  show ?thesis
    by (simp add: collect_ground_def mat_at_eq [OF g len(1)] rd_cloud [OF i j len(2)]
        frame_kept_def)
qed

definition marks_kept :: "state \<Rightarrow> state \<Rightarrow> bool" where
  "marks_kept st st' \<longleftrightarrow>
     frame_kept st st' \<and> ground_mat st' = ground_mat st \<and> full_cloud st' = full_cloud st"

lemma marks_kept_refl [simp]: "marks_kept a a"
  by (simp add: marks_kept_def)

lemma marks_kept_trans: "marks_kept a b \<Longrightarrow> marks_kept b c \<Longrightarrow> marks_kept a c"
  by (auto simp: marks_kept_def intro: frame_kept_trans)

lemma later_passes_keep_marks:
  assumes wf: "wf_state cfg s" and gs: "groundScanInd cfg < N_SCAN cfg"
  shows "\<exists>s2 s3. for_each (exclude_cell cfg) (cells cfg [0..<N_SCAN cfg]) s = Some s2
     \<and> for_each (collect_ground cfg) (cells cfg [0..<Suc (groundScanInd cfg)]) s2 = Some s3
     \<and> marks_kept s s3"
proof -
  have 2: "\<exists>s'. for_each (exclude_cell cfg) (cells cfg [0..<N_SCAN cfg]) s = Some s'
      \<and> wf_state cfg s' \<and> marks_kept s s'"
  proof (rule for_each_kept [where P = "wf_state cfg" and R = marks_kept])
    fix c s assume c: "c \<in> set (cells cfg [0..<N_SCAN cfg])" and w: "wf_state cfg s"
    obtain i j where ij: "c = (i, j)" by (cases c)
    with c have "i < N_SCAN cfg" "j < HORIZON_SCAN cfg" by (auto simp: cells_mem)
    from exclude_cell_keeps [OF w this] ij w
    show "\<exists>s'. exclude_cell cfg c s = Some s' \<and> wf_state cfg s' \<and> marks_kept s s'"
      unfolding marks_kept_def using frame_kept_fields(2) by blast
  qed (use wf in \<open>auto intro: marks_kept_trans\<close>)
  then obtain s2 where b: "for_each (exclude_cell cfg) (cells cfg [0..<N_SCAN cfg]) s = Some s2"
    "wf_state cfg s2" "marks_kept s s2" by blast
  have 3: "\<exists>s'. for_each (collect_ground cfg) (cells cfg [0..<Suc (groundScanInd cfg)]) s2 = Some s'
      \<and> wf_state cfg s' \<and> marks_kept s2 s'"
  proof (rule for_each_kept [where P = "wf_state cfg" and R = marks_kept])
    fix c s assume c: "c \<in> set (cells cfg [0..<Suc (groundScanInd cfg)])" and w: "wf_state cfg s"
    obtain i j where ij: "c = (i, j)" by (cases c)
    with c gs have "i < N_SCAN cfg" "j < HORIZON_SCAN cfg" by (auto simp: cells_mem)
    from collect_ground_keeps [OF w this] ij w
    show "\<exists>s'. collect_ground cfg c s = Some s' \<and> wf_state cfg s' \<and> marks_kept s s'"
      unfolding marks_kept_def using frame_kept_fields(2) by blast
  qed (use b(2) in \<open>auto intro: marks_kept_trans\<close>)
  then obtain s3 where c: "for_each (collect_ground cfg) (cells cfg [0..<Suc (groundScanInd cfg)]) s2 = Some s3"
    "marks_kept s2 s3" by blast
  from b c marks_kept_trans [OF b(3) c(2)] show ?thesis by blast
qed

lemma GroundRemoval_marks:
  assumes wf: "wf_state cfg st" and gs: "groundScanInd cfg < N_SCAN cfg"
  shows "\<exists>st'. GroundRemoval cfg st = Some st' \<and> frame_kept st st'
     \<and> full_cloud st' = full_cloud st
     \<and> (\<forall>c. snd c < HORIZON_SCAN cfg \<longrightarrow>
          ground_of cfg st' c = marks cfg st (set (cells cfg [0..<groundScanInd cfg])) c)"
proof -
  have pre: "\<forall>c \<in> set (cells cfg [0..<groundScanInd cfg]). c \<notin> {} \<and> (Suc (fst c), snd c) \<notin> {}
           \<and> Suc (fst c) < N_SCAN cfg \<and> snd c < HORIZON_SCAN cfg"
    using gs by (auto simp: cells_mem)
  have inv: "\<forall>c. snd c < HORIZON_SCAN cfg \<longrightarrow> ground_of cfg st c = marks cfg st {} c"
    by (simp add: marks_def)
  from ground_pairs_marks [OF cells_sorted pre wf refl inv] obtain s1 where
    a: "for_each (ground_pair cfg) (cells cfg [0..<groundScanInd cfg]) st = Some s1"
      "frame_kept st s1" "full_cloud s1 = full_cloud st"
      "\<forall>c. snd c < HORIZON_SCAN cfg \<longrightarrow>
          ground_of cfg s1 c = marks cfg st (set (cells cfg [0..<groundScanInd cfg])) c"
    by auto
  from frame_kept_fields(2) [OF a(2), of cfg] wf have w1: "wf_state cfg s1" by simp
  from later_passes_keep_marks [OF w1 gs] obtain s2 s3 where
    b: "for_each (exclude_cell cfg) (cells cfg [0..<N_SCAN cfg]) s1 = Some s2"
      "for_each (collect_ground cfg) (cells cfg [0..<Suc (groundScanInd cfg)]) s2 = Some s3"
      "marks_kept s1 s3" by blast
  from a(1) b(1,2) have r: "GroundRemoval cfg st = Some s3" by (simp add: GroundRemoval_def)
  from b(3) have k: "frame_kept s1 s3" "ground_mat s3 = ground_mat s1"
    "full_cloud s3 = full_cloud s1" by (simp_all add: marks_kept_def)
  from k(2) have "ground_of cfg s3 = ground_of cfg s1" by (simp add: ground_of_def fun_eq_iff)
  with r a k frame_kept_trans [OF a(2) k(1)] show ?thesis by simp
qed

lemma to_size_t_negative:
  assumes "- (2 ^ 63) \<le> c_trunc v" and "c_trunc v < 0"
  shows "2 ^ 63 \<le> to_size_t v"
proof -
  define k where "k = c_trunc v"
  from assms have c: "k < 0" and d: "- (2 ^ 63) \<le> k" by (simp_all add: k_def)
  have "k mod 2 ^ 64 = (k + 2 ^ 64) mod 2 ^ 64" by simp
  also have "\<dots> = k + 2 ^ 64"
  proof (rule mod_pos_pos_trivial)
    show "0 \<le> k + 2 ^ 64" using d by simp
    show "k + 2 ^ 64 < 2 ^ 64" using c by simp
  qed
  finally have m: "k mod 2 ^ 64 = k + 2 ^ 64" .
  have "to_size_t v = nat (k mod 2 ^ 64)" by (simp add: to_size_t_def k_def)
  with m d show ?thesis by simp
qed

lemma to_size_t_fraction:
  assumes "- 1 < v" and "v < 0"
  shows "to_size_t v = 0"
proof -
  from assms have "\<lceil>v\<rceil> = 0" by (simp add: ceiling_eq_iff)
  with assms show ?thesis by (simp add: to_size_t_def c_trunc_def)
qed

lemma column_bucket_whole:
  "c_trunc (column_bucket cfg p) < 0 \<longleftrightarrow> column_bucket cfg p < 0"
proof -
  define k where "k = - c_round ((atan2 (px p) (py p) * 180 / pi - 90) / ang_res_x cfg)
     + int (HORIZON_SCAN cfg div 2)"
  have "column_bucket cfg p = real_of_int k" by (simp add: column_bucket_def k_def Let_def)
  then show ?thesis by (simp add: c_trunc_def)
qed


text \<open>
  Whatever projection and ground removal return, they return the frame state with the
  grids and the dense clouds rewritten in place, so the sizes of the containers and the
  label counter are those of the state they started from. \<open>within_capacity\<close> is the bound
  on the work arrays for the region grown from one seed, \<open>seeds_within_capacity\<close> the
  same for every call that the first pass of \<^verbatim>\<open>CloudSegmentation\<close> makes.
\<close>

lemma for_each_rel:
  assumes step: "\<And>i s s'. f i s = Some s' \<Longrightarrow> R s s'"
    and refl: "\<And>s. R s s" and trans: "\<And>a b c. R a b \<Longrightarrow> R b c \<Longrightarrow> R a c"
  shows "for_each f is s = Some s' \<Longrightarrow> R s s'"
proof (induction "is" arbitrary: s)
  case Nil
  then show ?case by (simp add: refl)
next
  case (Cons i "is")
  from Cons.prems obtain s1 where 1: "f i s = Some s1" "for_each f is s1 = Some s'"
    by (auto split: Option.bind_splits)
  from trans [OF step [OF 1(1)] Cons.IH [OF 1(2)]] show ?case .
qed

lemma project_point_kept: "project_point cfg i s = Some s' \<Longrightarrow> frame_kept s s'"
  unfolding project_point_def Let_def mat_set_def wr_def
  by (auto simp: frame_kept_def split: Option.bind_splits if_splits)

lemma ground_pair_kept: "ground_pair cfg c s = Some s' \<Longrightarrow> frame_kept s s'"
  unfolding ground_pair_def mark_no_return_def Let_def mat_set_def wr_def
  by (auto simp: frame_kept_def split: Option.bind_splits if_splits prod.splits)

lemma exclude_cell_kept: "exclude_cell cfg c s = Some s' \<Longrightarrow> frame_kept s s'"
  unfolding exclude_cell_def Let_def mat_set_def wr_def
  by (auto simp: frame_kept_def split: Option.bind_splits if_splits prod.splits)

lemma collect_ground_kept: "collect_ground cfg c s = Some s' \<Longrightarrow> frame_kept s s'"
  unfolding collect_ground_def Let_def
  by (auto simp: frame_kept_def split: Option.bind_splits if_splits prod.splits)

lemma ProjectPointCloud_kept: "ProjectPointCloud cfg s = Some s' \<Longrightarrow> frame_kept s s'"
  unfolding ProjectPointCloud_def
  by (erule for_each_rel [rotated 3]) (auto intro: project_point_kept frame_kept_trans)

lemma GroundRemoval_kept:
  assumes "GroundRemoval cfg s = Some s'"
  shows "frame_kept s s'"
proof -
  from assms obtain s1 s2 where
    1: "for_each (ground_pair cfg) (cells cfg [0..<groundScanInd cfg]) s = Some s1"
    and 2: "for_each (exclude_cell cfg) (cells cfg [0..<N_SCAN cfg]) s1 = Some s2"
    and 3: "for_each (collect_ground cfg) (cells cfg [0..<Suc (groundScanInd cfg)]) s2 = Some s'"
    unfolding GroundRemoval_def by (auto split: Option.bind_splits)
  have a: "frame_kept s s1"
    by (rule for_each_rel [OF _ _ _ 1]) (auto intro: ground_pair_kept frame_kept_trans)
  have b: "frame_kept s1 s2"
    by (rule for_each_rel [OF _ _ _ 2]) (auto intro: exclude_cell_kept frame_kept_trans)
  have c: "frame_kept s2 s'"
    by (rule for_each_rel [OF _ _ _ 3]) (auto intro: collect_ground_kept frame_kept_trans)
  from a b c show ?thesis by (blast intro: frame_kept_trans)
qed


definition within_capacity :: "config \<Rightarrow> state \<Rightarrow> nat \<Rightarrow> nat \<Rightarrow> bool" where
  "within_capacity cfg st row col \<longleftrightarrow>
     (\<exists>st' lv. grow cfg st (int row) (int col) = Some (st', lv)
        \<and> all_pushed_ind_size lv = queue_end_ind lv
        \<and> queue_end_ind lv \<le> int (N_SCAN cfg * HORIZON_SCAN cfg)
        \<and> distinct (map (\<lambda>k. (queue_indX st' ! k, queue_indY st' ! k))
                      [0..<nat (queue_end_ind lv)])
        \<and> (\<forall>k < nat (queue_end_ind lv). in_grid cfg (queue_indX st' ! k) (queue_indY st' ! k)))
     \<and> (\<exists>st''. LabelComponents cfg st (int row) (int col) = Some st''
           \<and> wf_state cfg st'' \<and> 0 < label_count st'')"

definition seeds_within_capacity :: "config \<Rightarrow> state \<Rightarrow> bool" where
  "seeds_within_capacity cfg st \<longleftrightarrow>
     (\<forall>k < length (cells cfg [0..<N_SCAN cfg]).
        \<exists>s. for_each (label_cell cfg) (take k (cells cfg [0..<N_SCAN cfg])) st = Some s
          \<and> wf_state cfg s \<and> 0 < label_count s
          \<and> label_cell cfg (cells cfg [0..<N_SCAN cfg] ! k) s
              = (if label_of cfg s (cells cfg [0..<N_SCAN cfg] ! k) = LABEL_INIT
                 then LabelComponents cfg s (int (fst (cells cfg [0..<N_SCAN cfg] ! k)))
                        (int (snd (cells cfg [0..<N_SCAN cfg] ! k)))
                 else Some s)
          \<and> (label_of cfg s (cells cfg [0..<N_SCAN cfg] ! k) = LABEL_INIT \<longrightarrow>
                within_capacity cfg s (fst (cells cfg [0..<N_SCAN cfg] ! k))
                  (snd (cells cfg [0..<N_SCAN cfg] ! k))))"

lemma seed_within_capacity:
  assumes wf: "wf_state cfg st" and L: "0 < label_count st"
    and row: "row < N_SCAN cfg" and col: "col < HORIZON_SCAN cfg"
    and z: "label_of cfg st (row, col) = LABEL_INIT"
  shows "within_capacity cfg st row col"
proof -
  from L have L': "label_count st \<noteq> 0" by simp
  from row col have g: "in_grid cfg (int row) (int col)" by simp
  from z have z': "label_mat st ! nat (cell cfg (int row) (int col)) = 0"
    by (simp add: label_of_def LABEL_INIT_def)
  from grow_inv [OF wf L' g z'] obtain st' lv where
    gr: "grow cfg st (int row) (int col) = Some (st', lv)"
    and inv: "bfs_inv cfg (label_mat st) (st', lv)" by blast
  from inv have ct: "counters_ok cfg (st', lv)" and pu: "pushed_ok cfg (label_mat st) (st', lv)"
    by (simp_all add: bfs_inv_def)
  have d: "distinct (map (qcell cfg st') [0..<nat (queue_end_ind lv)])"
    using pu by (simp add: pushed_ok_def)
  have "map (qcell cfg st') [0..<nat (queue_end_ind lv)]
      = map (\<lambda>p. nat (cell cfg (fst p) (snd p)))
          (map (\<lambda>k. (queue_indX st' ! k, queue_indY st' ! k)) [0..<nat (queue_end_ind lv)])"
    by (simp add: qcell_def)
  with d have d': "distinct (map (\<lambda>k. (queue_indX st' ! k, queue_indY st' ! k))
      [0..<nat (queue_end_ind lv)])"
    by (metis distinct_map)
  from LabelComponents_spec [OF wf L' g z'] obtain st'' where
    r: "LabelComponents cfg st (int row) (int col) = Some st''" "wf_state cfg st''"
    and lc: "label_count st'' = label_count st \<or> label_count st'' = label_count st + 1"
    by blast
  from lc L have "0 < label_count st''" by auto
  with r have 2: "\<exists>st''. LabelComponents cfg st (int row) (int col) = Some st''
           \<and> wf_state cfg st'' \<and> 0 < label_count st''" by blast
  have 1: "\<exists>st' lv. grow cfg st (int row) (int col) = Some (st', lv)
        \<and> all_pushed_ind_size lv = queue_end_ind lv
        \<and> queue_end_ind lv \<le> int (N_SCAN cfg * HORIZON_SCAN cfg)
        \<and> distinct (map (\<lambda>k. (queue_indX st' ! k, queue_indY st' ! k))
                      [0..<nat (queue_end_ind lv)])
        \<and> (\<forall>k < nat (queue_end_ind lv). in_grid cfg (queue_indX st' ! k) (queue_indY st' ! k))"
    using gr ct pu d' by (auto simp: counters_ok_def pushed_ok_def cells_total_def)
  from 1 2 show ?thesis unfolding within_capacity_def by blast
qed

lemma label_cell_eq:
  assumes wf: "wf_state cfg s" and c: "fst c < N_SCAN cfg" "snd c < HORIZON_SCAN cfg"
  shows "label_cell cfg c s
     = (if label_of cfg s c = LABEL_INIT
        then LabelComponents cfg s (int (fst c)) (int (snd c)) else Some s)"
proof -
  obtain i j where ij: "c = (i, j)" by (cases c)
  with c have g: "in_grid cfg (int i) (int j)" by simp
  from wf have len: "length (label_mat s) = cells_total cfg" by (simp add: wf_state_def)
  show ?thesis
    by (simp add: ij label_cell_def mat_at_eq [OF g len] label_of_def)
qed

lemma seeds_within_capacity_holds:
  assumes wf: "wf_state cfg st" and L: "0 < label_count st"
  shows "seeds_within_capacity cfg st"
  unfolding seeds_within_capacity_def
proof (intro allI impI)
  fix k assume k: "k < length (cells cfg [0..<N_SCAN cfg])"
  define cs where "cs = cells cfg [0..<N_SCAN cfg]"
  have inb: "\<forall>c \<in> set (take k cs). fst c < N_SCAN cfg \<and> snd c < HORIZON_SCAN cfg"
    unfolding cs_def using cells_in_grid by (auto dest!: in_set_takeD)
  from label_cells_spec [OF wf L inb] obtain s where
    s: "for_each (label_cell cfg) (take k cs) st = Some s" "wf_state cfg s"
    and r: "resolved cfg st s" by blast
  from r L have Ls: "0 < label_count s" by (simp add: resolved_def)
  from k have "cs ! k \<in> set cs" by (simp add: cs_def)
  then have c: "fst (cs ! k) < N_SCAN cfg" "snd (cs ! k) < HORIZON_SCAN cfg"
    unfolding cs_def using cells_in_grid by auto
  note e = label_cell_eq [OF s(2) c]
  have "within_capacity cfg s (fst (cs ! k)) (snd (cs ! k))"
    if "label_of cfg s (cs ! k) = LABEL_INIT"
    using seed_within_capacity [OF s(2) Ls c] that by simp
  with s Ls e show "\<exists>s. for_each (label_cell cfg) (take k (cells cfg [0..<N_SCAN cfg])) st = Some s
          \<and> wf_state cfg s \<and> 0 < label_count s
          \<and> label_cell cfg (cells cfg [0..<N_SCAN cfg] ! k) s
              = (if label_of cfg s (cells cfg [0..<N_SCAN cfg] ! k) = LABEL_INIT
                 then LabelComponents cfg s (int (fst (cells cfg [0..<N_SCAN cfg] ! k)))
                        (int (snd (cells cfg [0..<N_SCAN cfg] ! k)))
                 else Some s)
          \<and> (label_of cfg s (cells cfg [0..<N_SCAN cfg] ! k) = LABEL_INIT \<longrightarrow>
                within_capacity cfg s (fst (cells cfg [0..<N_SCAN cfg] ! k))
                  (snd (cells cfg [0..<N_SCAN cfg] ! k)))"
    unfolding cs_def by blast
qed

lemma CloudSegmentation_wf:
  assumes wf: "wf_state cfg st" and L: "0 < label_count st"
  shows "\<exists>st'. CloudSegmentation cfg st = Some st' \<and> wf_state cfg st'"
proof -
  have inb: "\<forall>c \<in> set (cells cfg [0..<N_SCAN cfg]). fst c < N_SCAN cfg \<and> snd c < HORIZON_SCAN cfg"
    by (simp add: cells_in_grid)
  from label_cells_spec [OF wf L inb] obtain st1 where
    l: "label_all cfg st = Some st1" and w1: "wf_state cfg st1"
    by (auto simp: label_all_def)
  from assemble_all_spec [OF w1] obtain st2 where
    a: "assemble_all cfg st1 = Some st2" and k2: "grids_kept st1 st2" by blast
  from grids_kept_fields(6) [OF k2, of cfg] w1 have w2: "wf_state cfg st2" by simp
  from collect_pures_spec [OF w2 inb] obtain st' where
    c: "for_each (collect_pure cfg) (cells cfg [0..<N_SCAN cfg]) st2 = Some st'"
    and k': "grids_kept st2 st'" by blast
  from grids_kept_fields(6) [OF k', of cfg] w2 have "wf_state cfg st'" by simp
  with l a c show ?thesis by (simp add: CloudSegmentation_def)
qed

lemma reset_wf:
  "wf_state cfg st \<Longrightarrow> wf_state cfg (ResetParameters cfg (PublishCloud st))
     \<and> label_count (ResetParameters cfg (PublishCloud st)) = 1"
  by (simp add: wf_state_def ResetParameters_def PublishCloud_def cells_total_def)

lemma before_segmentation_wf:
  assumes wf: "wf_state cfg st" and L: "0 < label_count st"
    and c: "CopyPointCloud cfg st msg = Inr st1" and f: "FindStartEndAngle st1 = Inr st2"
    and p: "ProjectPointCloud cfg st2 = Some st3" and g: "GroundRemoval cfg st3 = Some st4"
  shows "wf_state cfg st4 \<and> 0 < label_count st4"
proof -
  from c wf L have 1: "wf_state cfg st1 \<and> 0 < label_count st1"
    by (auto simp: CopyPointCloud_def Let_def wf_state_def split: if_splits)
  from f 1 have 2: "wf_state cfg st2 \<and> 0 < label_count st2"
    by (auto simp: FindStartEndAngle_def Let_def wf_state_def split: if_splits)
  from frame_kept_fields(1) [OF ProjectPointCloud_kept [OF p]]
    frame_kept_fields(2) [OF ProjectPointCloud_kept [OF p], of cfg] 2
  have 3: "wf_state cfg st3 \<and> 0 < label_count st3" by simp
  from frame_kept_fields(1) [OF GroundRemoval_kept [OF g]]
    frame_kept_fields(2) [OF GroundRemoval_kept [OF g], of cfg] 3
  show ?thesis by simp
qed

section \<open>A small sensor for concrete runs\<close>

text \<open>
  Three rings and four azimuth bins of ninety degrees each, with the cluster thresholds of
  the original configuration (five cells, three lines).
\<close>

definition demo_cfg :: config where
  "demo_cfg = \<lparr>N_SCAN = 3, HORIZON_SCAN = 4, groundScanInd = 1,
     ang_res_x = 90, ang_res_y = 90, ang_bottom = 90,
     segmentAlphaX = pi / 2, segmentAlphaY = pi / 2, segmentTheta = pi / 6,
     segmentValidPointNum = 5, segmentValidLineNum = 3, use_cloud_ring = False,
     sensor_minimum_range = 1, sensor_mount_angle = 0\<rparr>"

lemma demo_cfg_simps [simp]:
  "N_SCAN demo_cfg = 3" "HORIZON_SCAN demo_cfg = 4" "groundScanInd demo_cfg = 1"
  "ang_res_x demo_cfg = 90" "ang_res_y demo_cfg = 90" "ang_bottom demo_cfg = 90"
  "segmentAlphaX demo_cfg = pi / 2" "segmentAlphaY demo_cfg = pi / 2"
  "segmentTheta demo_cfg = pi / 6"
  "segmentValidPointNum demo_cfg = 5" "segmentValidLineNum demo_cfg = 3"
  "use_cloud_ring demo_cfg = False" "sensor_minimum_range demo_cfg = 1"
  "sensor_mount_angle demo_cfg = 0"
  by (simp_all add: demo_cfg_def)

text \<open>A frame state of that sensor as \<^verbatim>\<open>ResetParameters\<close> leaves it.\<close>

definition demo_blank :: state where
  "demo_blank = \<lparr>cloud_header = 0, laser_cloud_in = [], laser_cloud_in_ring = [],
     full_cloud = replicate 12 nan_point, full_info_cloud = replicate 12 nan_point,
     ground_cloud = [], segmented_cloud = [], segmented_cloud_pure = [], outlier_cloud = [],
     range_mat = replicate 12 FLT_MAX, ground_mat = replicate 12 0,
     label_mat = replicate 12 LABEL_INIT, label_count = 1,
     all_pushed_indX = [0, 0, 0, 0, 0, 0, 0, 0, 0, 0, 0, 0],
     all_pushed_indY = [0, 0, 0, 0, 0, 0, 0, 0, 0, 0, 0, 0],
     queue_indX = [0, 0, 0, 0, 0, 0, 0, 0, 0, 0, 0, 0],
     queue_indY = [0, 0, 0, 0, 0, 0, 0, 0, 0, 0, 0, 0],
     seg_msg = \<lparr>startOrientation = 0, endOrientation = 0, orientationDiff = 0,
       startRingIndex = Map.empty, endRingIndex = Map.empty,
       segmentedCloudGroundFlag = Map.empty, segmentedCloudColInd = Map.empty,
       segmentedCloudRange = Map.empty\<rparr>,
     published = []\<rparr>"

text \<open>
  A thin vertical object at range 5: one return in ring 0 and two in each of the rings 1
  and 2; every other cell is empty and excluded (label \<open>-1\<close>) as after
  \<^verbatim>\<open>GroundRemoval\<close>.
\<close>

definition pole :: state where
  "pole = demo_blank
     \<lparr>range_mat := [5, FLT_MAX, FLT_MAX, FLT_MAX,
                    5, 5, FLT_MAX, FLT_MAX,
                    5, 5, FLT_MAX, FLT_MAX],
      label_mat := [0, -1, -1, -1,
                    0, 0, -1, -1,
                    0, 0, -1, -1]\<rparr>"

lemma pole_wf: "wf_state demo_cfg pole"
  by (simp add: wf_state_def cells_total_def pole_def demo_blank_def)

lemma seg_angle_same: "0 < r \<Longrightarrow> seg_angle demo_cfg r r d = pi / 4"
  by (simp add: seg_angle_def atan2_def arctan_one)

lemma flags3: "replicate 3 False = [False, False, False]"
  by (simp add: numeral_3_eq_3)

lemmas bfs_eval = flags3 LabelComponents_def grow_def bfs_while_run bfs_while_stop
  bfs_body_def dirs_def visit_def neighbor_def push_def mat_at_def mat_set_def
  in_grid_def cell_def wr_def rd_def seg_angle_same Let_def
  feasible_segment_def line_count_def LABEL_INIT_def LABEL_INVALID_def
  upt_rec [of _ "numeral _"] upt_rec [of _ "nat _"]

text \<open>The same sensor with eight azimuth bins, and a frame with two rejected cells.\<close>

definition wide_cfg :: config where
  "wide_cfg = demo_cfg\<lparr>HORIZON_SCAN := 8\<rparr>"

lemma wide_cfg_simps [simp]:
  "N_SCAN wide_cfg = 3" "HORIZON_SCAN wide_cfg = 8" "groundScanInd wide_cfg = 1"
  by (simp_all add: wide_cfg_def)

definition point_a :: point where
  "point_a = \<lparr>px = 0, py = 7, pz = 7, intensity = 2\<rparr>"

definition point_b :: point where
  "point_b = \<lparr>px = -7, py = 0, pz = 7, intensity = 2.0005\<rparr>"

definition two_invalid :: state where
  "two_invalid = demo_blank
     \<lparr>full_cloud := [None, None, None, None, None, None, None, None,
                     None, None, None, None, None, None, None, None,
                     Some point_a, None, None, None, None, Some point_b, None, None],
      full_info_cloud := replicate 24 nan_point,
      range_mat := replicate 24 FLT_MAX,
      ground_mat := [-1, -1, -1, -1, -1, -1, -1, -1,
                     0, 0, 0, 0, 0, 0, 0, 0,
                     0, 0, 0, 0, 0, 0, 0, 0],
      label_mat := [-1, -1, -1, -1, -1, -1, -1, -1,
                    -1, -1, -1, -1, -1, -1, -1, -1,
                    999999, -1, -1, -1, -1, 999999, -1, -1],
      all_pushed_indX := replicate 24 0, all_pushed_indY := replicate 24 0,
      queue_indX := replicate 24 0, queue_indY := replicate 24 0\<rparr>"

text \<open>A sweep of a single return, and a sweep whose first and last return are a quarter turn apart.\<close>

definition lone_frame :: cloud_in where
  "lone_frame = \<lparr>msg_points = [Some \<lparr>px = 0, py = 1, pz = 0, intensity = 0\<rparr>],
     msg_rings = [1], msg_is_dense = True, msg_timestamp = 1\<rparr>"


lemma demo_blank_wf: "wf_state demo_cfg demo_blank"
  by (simp add: wf_state_def cells_total_def demo_blank_def)


text \<open>
  The frame \<open>lone_frame\<close> stage by stage, from the state \<open>demo_blank\<close>: its one return
  lies in ring 1 and azimuth bin 3 at range 1; the cell is the only one left unlabelled by
  \<^verbatim>\<open>GroundRemoval\<close>, its segment of one cell is rejected, and nothing is appended to the
  output clouds. \<open>lone_done\<close> is the state that \<^verbatim>\<open>CloudHandler\<close> leaves.
\<close>

definition lone_copied :: state where
  "lone_copied = demo_blank\<lparr>cloud_header := 1,
     laser_cloud_in := [\<lparr>px = 0, py = 1, pz = 0, intensity = 0\<rparr>]\<rparr>"

lemma lone_copy: "CopyPointCloud demo_cfg demo_blank lone_frame = Inr lone_copied"
  by (simp add: CopyPointCloud_def lone_frame_def lone_copied_def List.map_filter_simps)

definition lone_oriented :: state where
  "lone_oriented = lone_copied\<lparr>seg_msg := (seg_msg lone_copied)
     \<lparr>startOrientation := 0, endOrientation := 2 * pi, orientationDiff := 2 * pi\<rparr>\<rparr>"

lemma lone_angle: "FindStartEndAngle lone_copied = Inr lone_oriented"
  by (simp add: FindStartEndAngle_def lone_copied_def lone_oriented_def atan2_def Let_def)

definition lone_projected :: state where
  "lone_projected = lone_oriented
     \<lparr>range_mat := [FLT_MAX, FLT_MAX, FLT_MAX, FLT_MAX, FLT_MAX, FLT_MAX, FLT_MAX, 1,
                    FLT_MAX, FLT_MAX, FLT_MAX, FLT_MAX],
      full_cloud := [None, None, None, None, None, None, None,
                     Some \<lparr>px = 0, py = 1, pz = 0, intensity = 1 + 3 / 10000\<rparr>,
                     None, None, None, None],
      full_info_cloud := [None, None, None, None, None, None, None,
                     Some \<lparr>px = 0, py = 1, pz = 0, intensity = 1\<rparr>,
                     None, None, None, None]\<rparr>"

lemma rep12: "replicate 12 x = [x, x, x, x, x, x, x, x, x, x, x, x]"
  by (simp add: numeral_eq_Suc)

lemma lone_project: "ProjectPointCloud demo_cfg lone_oriented = Some lone_projected"
proof -
  have r: "to_size_t (row_bucket demo_cfg \<lparr>px = 0, py = 1, pz = 0, intensity = 0\<rparr>) = 1"
    by (simp add: row_bucket_def atan2_def to_size_t_def c_trunc_def)
  have c: "to_size_t (column_bucket demo_cfg \<lparr>px = 0, py = 1, pz = 0, intensity = 0\<rparr>) = 3"
    by (simp add: column_bucket_def atan2_def to_size_t_def c_trunc_def c_round_def)
  show ?thesis
    unfolding ProjectPointCloud_def
    by (simp add: lone_oriented_def lone_copied_def lone_projected_def demo_blank_def
        project_point_def rd_def wr_def mat_set_def in_grid_def cell_def r c Let_def rep12
        nan_point_def)
qed


definition lone_ground :: state where
  "lone_ground = lone_projected
     \<lparr>ground_mat := [-1, -1, -1, -1, 0, 0, 0, 0, 0, 0, 0, 0],
      label_mat := [-1, -1, -1, -1, -1, -1, -1, 0, -1, -1, -1, -1]\<rparr>"

lemma lone_removal: "GroundRemoval demo_cfg lone_projected = Some lone_ground"
  unfolding GroundRemoval_def cells_def
  by (simp add: ground_pair_def mark_no_return_def exclude_cell_def collect_ground_def
      lone_ground_def lone_projected_def lone_oriented_def lone_copied_def demo_blank_def
      rd_def wr_def mat_at_def mat_set_def in_grid_def cell_def IsNaN_def nan_point_def
      FLT_MAX_def LABEL_INIT_def rep12 Let_def upt_rec [of _ "numeral _"])

definition lone_segmented :: state where
  "lone_segmented = lone_ground
     \<lparr>label_mat := [-1, -1, -1, -1, -1, -1, -1, 999999, -1, -1, -1, -1],
      queue_indX := [1, 0, 0, 0, 0, 0, 0, 0, 0, 0, 0, 0],
      queue_indY := [3, 0, 0, 0, 0, 0, 0, 0, 0, 0, 0, 0],
      all_pushed_indX := [1, 0, 0, 0, 0, 0, 0, 0, 0, 0, 0, 0],
      all_pushed_indY := [3, 0, 0, 0, 0, 0, 0, 0, 0, 0, 0, 0],
      seg_msg := (seg_msg lone_ground)
        \<lparr>startRingIndex := [0 \<mapsto> 4, 1 \<mapsto> 4, 2 \<mapsto> 4],
         endRingIndex := [0 \<mapsto> - 6, 1 \<mapsto> - 6, 2 \<mapsto> - 6]\<rparr>\<rparr>"

lemma lone_label: "label_all demo_cfg lone_ground
    = Some (lone_ground
     \<lparr>label_mat := [-1, -1, -1, -1, -1, -1, -1, 999999, -1, -1, -1, -1],
      queue_indX := [1, 0, 0, 0, 0, 0, 0, 0, 0, 0, 0, 0],
      queue_indY := [3, 0, 0, 0, 0, 0, 0, 0, 0, 0, 0, 0],
      all_pushed_indX := [1, 0, 0, 0, 0, 0, 0, 0, 0, 0, 0, 0],
      all_pushed_indY := [3, 0, 0, 0, 0, 0, 0, 0, 0, 0, 0, 0]\<rparr>)"
  unfolding label_all_def cells_def
  by (simp add: label_cell_def bfs_eval
      lone_ground_def lone_projected_def lone_oriented_def lone_copied_def demo_blank_def)

lemma lone_segmentation: "CloudSegmentation demo_cfg lone_ground = Some lone_segmented"
  unfolding CloudSegmentation_def lone_label
  apply (simp add: assemble_all_def assemble_row_def assemble_cell_def collect_pure_def cells_def
      lone_segmented_def
      lone_ground_def lone_projected_def lone_oriented_def lone_copied_def demo_blank_def
      mat_at_def rd_def in_grid_def cell_def LABEL_INVALID_def
      upt_rec [of _ "numeral _"])
  apply (simp add: numeral_2_eq_2)
  done

definition lone_done :: state where
  "lone_done = demo_blank
     \<lparr>cloud_header := 1,
      queue_indX := [1, 0, 0, 0, 0, 0, 0, 0, 0, 0, 0, 0],
      queue_indY := [3, 0, 0, 0, 0, 0, 0, 0, 0, 0, 0, 0],
      all_pushed_indX := [1, 0, 0, 0, 0, 0, 0, 0, 0, 0, 0, 0],
      all_pushed_indY := [3, 0, 0, 0, 0, 0, 0, 0, 0, 0, 0, 0],
      seg_msg := (seg_msg demo_blank)
        \<lparr>startOrientation := 0, endOrientation := 2 * pi, orientationDiff := 2 * pi,
         startRingIndex := [0 \<mapsto> 4, 1 \<mapsto> 4, 2 \<mapsto> 4],
         endRingIndex := [0 \<mapsto> - 6, 1 \<mapsto> - 6, 2 \<mapsto> - 6]\<rparr>,
      published := published (PublishCloud lone_segmented)\<rparr>"

lemma lone_reset: "ResetParameters demo_cfg (PublishCloud lone_segmented) = lone_done"
  by (simp add: ResetParameters_def PublishCloud_def lone_done_def lone_segmented_def
      lone_ground_def lone_projected_def lone_oriented_def lone_copied_def demo_blank_def rep12
      nan_point_def LABEL_INIT_def)

lemma lone_handler: "CloudHandler demo_cfg demo_blank lone_frame = Inr lone_done"
  unfolding lone_reset [symmetric]
  by (simp add: CloudHandler_def and_then_def defined_def lone_copy lone_angle lone_project
      lone_removal lone_segmentation)

lemma demo_cells:
  "cells demo_cfg [0..<N_SCAN demo_cfg]
     = [(0, 0), (0, 1), (0, 2), (0, 3), (1, 0), (1, 1), (1, 2), (1, 3),
        (2, 0), (2, 1), (2, 2), (2, 3)]"
  by (simp add: cells_def upt_rec [of _ "numeral _"])

lemma lone_seed:
  "for_each (label_cell demo_cfg) (take 7 (cells demo_cfg [0..<N_SCAN demo_cfg])) lone_ground
     = Some lone_ground"
  unfolding demo_cells
  by (simp add: label_cell_def mat_at_def rd_def in_grid_def cell_def LABEL_INIT_def
      lone_ground_def lone_projected_def lone_oriented_def lone_copied_def demo_blank_def)

text \<open>The frame \<open>pole\<close> when its seed has been dequeued and labelled.\<close>

definition seed_done :: state where
  "seed_done = pole\<lparr>label_mat := [1, -1, -1, -1, 0, 0, -1, -1, 0, 0, -1, -1]\<rparr>"

definition seed_locals :: locals where
  "seed_locals = \<lparr>all_pushed_ind_size = 1, queue_start_ind = 1, queue_end_ind = 1,
     queue_size = 0, line_count_flag = [False, False, False]\<rparr>"

text \<open>Two returns on level ground in the rings 0 and 1 of column 0.\<close>

definition two_returns :: state where
  "two_returns = demo_blank
     \<lparr>full_cloud := [Some \<lparr>px = 0, py = 1, pz = 0, intensity = 0\<rparr>, None, None, None,
                     Some \<lparr>px = 0, py = 2, pz = 0, intensity = 1\<rparr>, None, None, None,
                     None, None, None, None],
      ground_mat := [0, 0, 0, 0, 0, 0, 0, 0, 0, 0, 0, 0]\<rparr>"

text \<open>A sensor whose lowest ring looks 15 degrees down, and a return 45 degrees below the horizon.\<close>

definition steep_cfg :: config where
  "steep_cfg = demo_cfg\<lparr>ang_bottom := 15, ang_res_y := 2\<rparr>"

definition low_point :: point where
  "low_point = \<lparr>px = 0, py = 1, pz = -1, intensity = 0\<rparr>"

definition one_low :: state where
  "one_low = demo_blank\<lparr>laser_cloud_in := [low_point]\<rparr>"

lemma low_point_bucket: "row_bucket steep_cfg low_point = - 15"
proof -
  have "atan2 (- 1) 1 = - (pi / 4)" by (simp add: atan2_def arctan_minus arctan_one)
  then show ?thesis by (simp add: row_bucket_def steep_cfg_def low_point_def)
qed

text \<open>
  A sensor whose lowest ring looks 44 degrees down, for which the same return falls half a
  bucket below ring 0; and a sensor with azimuth bins of one degree, with a return behind
  it.
\<close>

definition shallow_cfg :: config where
  "shallow_cfg = demo_cfg\<lparr>ang_bottom := 44, ang_res_y := 2\<rparr>"

definition fine_cfg :: config where
  "fine_cfg = demo_cfg\<lparr>ang_res_x := 1\<rparr>"

definition behind_point :: point where
  "behind_point = \<lparr>px = 0, py = - 1, pz = 0, intensity = 0\<rparr>"

definition one_behind :: state where
  "one_behind = demo_blank\<lparr>laser_cloud_in := [behind_point]\<rparr>"

lemma low_point_shallow: "row_bucket shallow_cfg low_point = - (1 / 2)"
proof -
  have "atan2 (- 1) 1 = - (pi / 4)" by (simp add: atan2_def arctan_minus arctan_one)
  then show ?thesis by (simp add: row_bucket_def shallow_cfg_def low_point_def)
qed

lemma low_point_column: "column_bucket shallow_cfg low_point = 3"
  by (simp add: column_bucket_def shallow_cfg_def low_point_def atan2_def c_round_def)

lemma behind_point_column: "column_bucket fine_cfg behind_point = - 88"
proof -
  have "atan2 0 (- 1) = pi" by (simp add: atan2_def)
  then show ?thesis
    by (simp add: column_bucket_def fine_cfg_def behind_point_def c_round_def)
qed

section \<open>Adjacency of the range image\<close>



section \<open>Region growing\<close>

text \<open>
  Claim C1, at a failing input. The claim accepts a cluster of at least
  \<open>segmentValidPointNum\<close> cells that spans at least \<open>segmentValidLineNum\<close> distinct
  rows. The cluster of \<open>pole\<close> has five cells in the three rows 0, 1 and 2, and the
  thresholds are five cells and three rows; the segment grown from the seed \<open>(0, 0)\<close> has
  five pushed cells, but only two rows are flagged (the row of the seed is flagged only
  when another of its cells joins), so every cell of the cluster ends with the INVALID
  label and the label counter stays 1.
\<close>

theorem small_pole_rejected:
  "map_option (\<lambda>s. (all_pushed_ind_size (snd s), line_count demo_cfg (snd s)))
     (grow demo_cfg pole 0 0) = Some (5, 2)
   \<and> map_option (\<lambda>st. (label_mat st, label_count st)) (LabelComponents demo_cfg pole 0 0)
     = Some ([999999, -1, -1, -1, 999999, 999999, -1, -1, 999999, 999999, -1, -1], 1)"
  by (simp add: bfs_eval pole_def demo_blank_def)

text \<open>
  Claim C3. After \<^verbatim>\<open>CloudSegmentation\<close> on a frame state with grids of the configured
  size and a positive label counter, no cell of the label matrix holds 0: a cell that was
  not 0 (such as a cell marked \<open>-1\<close>) keeps its label, and a cell that was 0 holds the
  INVALID label or a segment id issued during this segmentation, which is positive.
  The segmentation returns: no access leaves a container.
\<close>

theorem no_cell_left_unvisited:
  assumes wf: "wf_state cfg st" and L: "0 < label_count st"
  shows "\<exists>st'. CloudSegmentation cfg st = Some st' \<and>
     (\<forall>i < N_SCAN cfg. \<forall>j < HORIZON_SCAN cfg.
        label_of cfg st' (i, j) \<noteq> 0 \<and>
        (label_of cfg st (i, j) \<noteq> 0 \<longrightarrow> label_of cfg st' (i, j) = label_of cfg st (i, j)) \<and>
        (label_of cfg st (i, j) = 0 \<longrightarrow>
           label_of cfg st' (i, j) = LABEL_INVALID \<or>
           (label_count st \<le> label_of cfg st' (i, j) \<and>
            label_of cfg st' (i, j) < label_count st')))"
  using assms by (rule CloudSegmentation_resolves)

theorem no_cell_left_unvisited_witness:
  "wf_state demo_cfg pole \<and> 0 < label_count pole \<and>
   (\<exists>st'. CloudSegmentation demo_cfg pole = Some st' \<and>
      (\<forall>i < N_SCAN demo_cfg. \<forall>j < HORIZON_SCAN demo_cfg. label_of demo_cfg st' (i, j) \<noteq> 0))"
proof -
  have L: "0 < label_count pole" by (simp add: pole_def demo_blank_def)
  from no_cell_left_unvisited [OF pole_wf L] pole_wf L show ?thesis by blast
qed

text \<open>
  Claim C7. In a frame state with containers of \<open>N_SCAN * HORIZON_SCAN\<close> entries and a
  positive label counter (\<^verbatim>\<open>ResetParameters\<close> sets it to 1 and \<^verbatim>\<open>LabelComponents\<close> only
  increments it), every call of \<^verbatim>\<open>LabelComponents\<close> on an unlabelled cell of the grid
  pushes at most \<open>N_SCAN * HORIZON_SCAN\<close> cells: the cells in the work arrays are pairwise
  different cells of the grid, no access leaves the arrays, and the call returns a state
  with the same container sizes and a positive counter. This covers every call the
  program makes: each call of the first pass of \<^verbatim>\<open>CloudSegmentation\<close> starts from such a
  state, the state that \<^verbatim>\<open>CloudHandler\<close> hands to \<^verbatim>\<open>CloudSegmentation\<close> is such a
  state whenever the frame gets that far, and \<^verbatim>\<open>CloudHandler\<close> then ends in such a state
  again, with the counter at 1. The source has no assertion on the bound; since the bound
  always holds, none is ever needed.
\<close>

theorem work_queue_within_capacity:
  assumes wf: "wf_state cfg st" and L: "0 < label_count st"
  shows "(\<forall>row col. row < N_SCAN cfg \<and> col < HORIZON_SCAN cfg
            \<and> label_of cfg st (row, col) = LABEL_INIT \<longrightarrow>
          (\<exists>st' lv. grow cfg st (int row) (int col) = Some (st', lv)
             \<and> all_pushed_ind_size lv = queue_end_ind lv
             \<and> queue_end_ind lv \<le> int (N_SCAN cfg * HORIZON_SCAN cfg)
             \<and> distinct (map (\<lambda>k. (queue_indX st' ! k, queue_indY st' ! k))
                           [0..<nat (queue_end_ind lv)])
             \<and> (\<forall>k < nat (queue_end_ind lv).
                   in_grid cfg (queue_indX st' ! k) (queue_indY st' ! k)))
          \<and> (\<exists>st''. LabelComponents cfg st (int row) (int col) = Some st''
                \<and> wf_state cfg st'' \<and> 0 < label_count st''))
       \<and> seeds_within_capacity cfg st
       \<and> (\<exists>st'. CloudSegmentation cfg st = Some st' \<and> wf_state cfg st')
       \<and> (\<forall>msg st1 st2 st3 st4.
            CopyPointCloud cfg st msg = Inr st1 \<and> FindStartEndAngle st1 = Inr st2
            \<and> ProjectPointCloud cfg st2 = Some st3 \<and> GroundRemoval cfg st3 = Some st4 \<longrightarrow>
            wf_state cfg st4 \<and> 0 < label_count st4 \<and> seeds_within_capacity cfg st4
            \<and> (\<exists>st5. CloudSegmentation cfg st4 = Some st5
                  \<and> CloudHandler cfg st msg = Inr (ResetParameters cfg (PublishCloud st5))
                  \<and> wf_state cfg (ResetParameters cfg (PublishCloud st5))
                  \<and> label_count (ResetParameters cfg (PublishCloud st5)) = 1))"
proof -
  have a: "within_capacity cfg st row col"
    if "row < N_SCAN cfg" "col < HORIZON_SCAN cfg" "label_of cfg st (row, col) = LABEL_INIT"
    for row col
    using seed_within_capacity [OF wf L that] .
  have d: "wf_state cfg st4 \<and> 0 < label_count st4 \<and> seeds_within_capacity cfg st4
            \<and> (\<exists>st5. CloudSegmentation cfg st4 = Some st5
                  \<and> CloudHandler cfg st msg = Inr (ResetParameters cfg (PublishCloud st5))
                  \<and> wf_state cfg (ResetParameters cfg (PublishCloud st5))
                  \<and> label_count (ResetParameters cfg (PublishCloud st5)) = 1)"
    if s: "CopyPointCloud cfg st msg = Inr st1" "FindStartEndAngle st1 = Inr st2"
      "ProjectPointCloud cfg st2 = Some st3" "GroundRemoval cfg st3 = Some st4"
    for msg st1 st2 st3 st4
  proof -
    from before_segmentation_wf [OF wf L s] have w4: "wf_state cfg st4" "0 < label_count st4"
      by simp_all
    from CloudSegmentation_wf [OF w4] obtain st5 where
      5: "CloudSegmentation cfg st4 = Some st5" "wf_state cfg st5" by blast
    from s 5(1) have "CloudHandler cfg st msg = Inr (ResetParameters cfg (PublishCloud st5))"
      by (simp add: CloudHandler_def and_then_def defined_def)
    with w4 5 reset_wf [OF 5(2)] seeds_within_capacity_holds [OF w4] show ?thesis by blast
  qed
  from a [unfolded within_capacity_def] seeds_within_capacity_holds [OF wf L]
    CloudSegmentation_wf [OF wf L] d
  show ?thesis by blast
qed


theorem work_queue_within_capacity_witness:
  "wf_state demo_cfg pole \<and> 0 < label_count pole \<and> (0::nat) < N_SCAN demo_cfg
   \<and> (0::nat) < HORIZON_SCAN demo_cfg \<and> label_of demo_cfg pole (0, 0) = LABEL_INIT
   \<and> LabelComponents demo_cfg pole 0 0 \<noteq> None
   \<and> wf_state demo_cfg demo_blank \<and> 0 < label_count demo_blank
   \<and> CopyPointCloud demo_cfg demo_blank lone_frame = Inr lone_copied
   \<and> FindStartEndAngle lone_copied = Inr lone_oriented
   \<and> ProjectPointCloud demo_cfg lone_oriented = Some lone_projected
   \<and> GroundRemoval demo_cfg lone_projected = Some lone_ground
   \<and> wf_state demo_cfg lone_ground \<and> 0 < label_count lone_ground
   \<and> label_of demo_cfg lone_ground (1, 3) = LABEL_INIT
   \<and> within_capacity demo_cfg lone_ground 1 3"
proof -
  have L: "0 < label_count pole" by (simp add: pole_def demo_blank_def)
  have z: "label_of demo_cfg pole (0, 0) = LABEL_INIT"
    by (simp add: label_of_def pole_def LABEL_INIT_def)
  from work_queue_within_capacity [OF pole_wf L, THEN conjunct1, rule_format, of 0 0] z
  have "\<exists>st''. LabelComponents demo_cfg pole (int 0) (int 0) = Some st''
      \<and> wf_state demo_cfg st'' \<and> 0 < label_count st''"
    by simp
  then have 1: "LabelComponents demo_cfg pole 0 0 \<noteq> None" by auto
  have Lb: "0 < label_count demo_blank" by (simp add: demo_blank_def)
  from work_queue_within_capacity [OF demo_blank_wf Lb, THEN conjunct2, THEN conjunct2,
      THEN conjunct2, rule_format,
      of lone_frame lone_copied lone_oriented lone_projected lone_ground]
    lone_copy lone_angle lone_project lone_removal
  have 2: "wf_state demo_cfg lone_ground" "0 < label_count lone_ground"
    "seeds_within_capacity demo_cfg lone_ground"
    by simp_all
  have k: "(7::nat) < length (cells demo_cfg [0..<N_SCAN demo_cfg])"
    "cells demo_cfg [0..<N_SCAN demo_cfg] ! 7 = (1, 3)"
    unfolding demo_cells by simp_all
  have z': "label_of demo_cfg lone_ground (1, 3) = LABEL_INIT"
    by (simp add: label_of_def LABEL_INIT_def lone_ground_def)
  from 2(3) [unfolded seeds_within_capacity_def, rule_format, OF k(1)] z'
  have 3: "within_capacity demo_cfg lone_ground 1 3"
    unfolding lone_seed k(2) by simp
  from pole_wf L z 1 demo_blank_wf Lb lone_copy lone_angle lone_project lone_removal 2 z' 3
  show ?thesis by simp
qed

section \<open>Output assembly\<close>

text \<open>
  Claim C9, as amended. During output assembly the cells appended to the outlier cloud
  are exactly the cells with the INVALID label in a row strictly beyond \<open>groundScanInd\<close>
  whose column index is a multiple of 5, in row-major order; no cell with the INVALID
  label is appended to the segmented cloud.
\<close>

theorem outliers_sampled_by_column:
  assumes wf: "wf_state cfg st"
  shows "\<exists>st'. assemble_all cfg st = Some st'
     \<and> outlier_cloud st' = outlier_cloud st
          @ map (cloud_point cfg st)
              (filter (\<lambda>c. label_of cfg st c = LABEL_INVALID \<and> groundScanInd cfg < fst c
                            \<and> snd c mod 5 = 0)
                 (cells cfg [0..<N_SCAN cfg]))
     \<and> segmented_cloud st' = segmented_cloud st
          @ map (cloud_point cfg st)
              (filter (\<lambda>c. is_segmented cfg st c \<and> label_of cfg st c \<noteq> LABEL_INVALID)
                 (cells cfg [0..<N_SCAN cfg]))"
proof -
  have 1: "is_outlier cfg st = (\<lambda>c. label_of cfg st c = LABEL_INVALID \<and> groundScanInd cfg < fst c
                            \<and> snd c mod 5 = 0)"
    by (simp add: is_outlier_def fun_eq_iff)
  have 2: "is_segmented cfg st
      = (\<lambda>c. is_segmented cfg st c \<and> label_of cfg st c \<noteq> LABEL_INVALID)"
    by (auto simp: is_segmented_def fun_eq_iff)
  from assemble_all_spec [OF wf] show ?thesis
    unfolding 1 using 2 by auto
qed

theorem outliers_sampled_by_column_witness:
  "wf_state wide_cfg two_invalid \<and>
   (\<exists>st'. assemble_all wide_cfg two_invalid = Some st'
     \<and> outlier_cloud st' = outlier_cloud two_invalid
          @ map (cloud_point wide_cfg two_invalid)
              (filter (\<lambda>c. label_of wide_cfg two_invalid c = LABEL_INVALID
                            \<and> groundScanInd wide_cfg < fst c \<and> snd c mod 5 = 0)
                 (cells wide_cfg [0..<N_SCAN wide_cfg])))"
proof -
  have w: "wf_state wide_cfg two_invalid"
    by (simp add: wf_state_def cells_total_def two_invalid_def demo_blank_def)
  from outliers_sampled_by_column [OF w] w show ?thesis by blast
qed

text \<open>
  The frame \<open>two_invalid\<close> has exactly two cells with the INVALID label, in the columns
  0 and 5 of row 2, and both are appended to the outlier cloud: the sampling goes by the
  column index, not by counting the INVALID cells.
\<close>

theorem both_invalid_cells_sampled:
  "count_list (label_mat two_invalid) LABEL_INVALID = 2
   \<and> map_option outlier_cloud (assemble_all wide_cfg two_invalid)
       = Some [Some point_a, Some point_b]"
  by (simp add: assemble_all_def assemble_row_def assemble_cell_def two_invalid_def
      demo_blank_def mat_at_def rd_def in_grid_def cell_def LABEL_INVALID_def
      upt_rec [of _ "numeral _"])

section \<open>Admission of a neighbour\<close>

text \<open>
  Claim C2. A neighbour examined during region growing that is still unlabelled is
  admitted exactly when \<open>atan2 (d2 * sin alpha) (d1 - d2 * cos alpha)\<close> exceeds
  \<open>segmentTheta\<close>, where \<open>d1\<close> is the larger and \<open>d2\<close> the smaller of the ranges of the
  current cell and the neighbour and \<open>alpha\<close> is \<open>segmentAlphaX\<close> for a move along the
  row (to another column) and \<open>segmentAlphaY\<close> for a move to another row. An admitted
  neighbour gets the current segment id and the next place of the queue; otherwise the
  examination changes nothing.
\<close>

theorem neighbor_admitted_by_angle:
  assumes sz: "sizes_ok cfg (st, lv)"
    and fr: "in_grid cfg from_indX from_indY"
    and nb: "neighbor cfg from_indX from_indY d = Some (this_indX, this_indY)"
    and d: "d \<in> set dirs"
    and unl: "label_mat st ! nat (cell cfg this_indX this_indY) = LABEL_INIT"
    and cap: "0 \<le> queue_end_ind lv" "queue_end_ind lv < int (cells_total cfg)"
      "all_pushed_ind_size lv = queue_end_ind lv"
  shows "let range_from = range_mat st ! nat (cell cfg from_indX from_indY);
             range_this = range_mat st ! nat (cell cfg this_indX this_indY);
             d1 = max range_from range_this;
             d2 = min range_from range_this;
             alpha = (if fst d = 0 then segmentAlphaX cfg else segmentAlphaY cfg);
             angle = atan2 (d2 * sin alpha) (d1 - d2 * cos alpha)
         in if angle > segmentTheta cfg
            then \<exists>st' lv'. visit cfg from_indX from_indY d (st, lv) = Some (st', lv')
                   \<and> label_mat st' ! nat (cell cfg this_indX this_indY) = label_count st
                   \<and> queue_indX st' ! nat (queue_end_ind lv) = this_indX
                   \<and> queue_indY st' ! nat (queue_end_ind lv) = this_indY
                   \<and> queue_end_ind lv' = queue_end_ind lv + 1
                   \<and> queue_size lv' = queue_size lv + 1
            else visit cfg from_indX from_indY d (st, lv) = Some (st, lv)"
proof -
  from neighbor_in_grid [OF fr nb d] have t: "in_grid cfg this_indX this_indY" .
  from sz have len: "length (label_mat st) = cells_total cfg"
    "length (range_mat st) = cells_total cfg" "length (queue_indX st) = cells_total cfg"
    "length (queue_indY st) = cells_total cfg"
    by (simp_all add: sizes_ok_def)
  note at = mat_at_eq [OF t len(1)] mat_at_eq [OF t len(2)] mat_at_eq [OF fr len(2)]
  from in_grid_cell_nat [OF t] have c: "nat (cell cfg this_indX this_indY) < cells_total cfg"
    by (simp add: cells_total_def)
  from cap have e: "nat (queue_end_ind lv) < cells_total cfg" by simp
  have v: "visit cfg from_indX from_indY d (st, lv) =
      (if seg_angle cfg (range_mat st ! nat (cell cfg from_indX from_indY))
            (range_mat st ! nat (cell cfg this_indX this_indY)) d > segmentTheta cfg
       then push cfg this_indX this_indY (st, lv) else Some (st, lv))"
    using nb at unl by (simp add: visit_def)
  show ?thesis
    unfolding v push_eq [OF t sz cap]
    using c e len by (simp add: seg_angle_def Let_def)
qed

theorem neighbor_admitted_by_angle_witness:
  "sizes_ok demo_cfg (seed_done, seed_locals) \<and> in_grid demo_cfg 0 0
   \<and> neighbor demo_cfg 0 0 (1, 0) = Some (1, 0) \<and> (1, 0) \<in> set dirs
   \<and> label_mat seed_done ! nat (cell demo_cfg 1 0) = LABEL_INIT
   \<and> 0 \<le> queue_end_ind seed_locals \<and> queue_end_ind seed_locals < int (cells_total demo_cfg)
   \<and> all_pushed_ind_size seed_locals = queue_end_ind seed_locals
   \<and> (\<exists>st' lv'. visit demo_cfg 0 0 (1, 0) (seed_done, seed_locals) = Some (st', lv')
         \<and> label_mat st' ! nat (cell demo_cfg 1 0) = label_count seed_done
         \<and> queue_indX st' ! nat (queue_end_ind seed_locals) = 1
         \<and> queue_indY st' ! nat (queue_end_ind seed_locals) = 0
         \<and> queue_end_ind lv' = queue_end_ind seed_locals + 1
         \<and> queue_size lv' = queue_size seed_locals + 1)"
proof -
  have 1: "sizes_ok demo_cfg (seed_done, seed_locals)"
    by (simp add: sizes_ok_def seed_done_def seed_locals_def pole_def demo_blank_def
        cells_total_def)
  have 2: "in_grid demo_cfg 0 0" by (simp add: in_grid_def)
  have 3: "neighbor demo_cfg 0 0 (1, 0) = Some (1, 0)" by (simp add: neighbor_def)
  have 4: "(1, 0) \<in> set dirs" by (simp add: dirs_def)
  have 5: "label_mat seed_done ! nat (cell demo_cfg 1 0) = LABEL_INIT"
    by (simp add: seed_done_def cell_def LABEL_INIT_def)
  have 6: "0 \<le> queue_end_ind seed_locals" "queue_end_ind seed_locals < int (cells_total demo_cfg)"
    "all_pushed_ind_size seed_locals = queue_end_ind seed_locals"
    by (simp_all add: seed_locals_def cells_total_def)
  have 7: "range_mat seed_done ! nat (cell demo_cfg 0 0) = 5"
    "range_mat seed_done ! nat (cell demo_cfg 1 0) = 5"
    by (simp_all add: seed_done_def pole_def cell_def)
  have 8: "atan2 (min 5 5 * sin (pi / 2)) (max 5 5 - min 5 5 * cos (pi / 2)) > pi / 6"
    by (simp add: atan2_def arctan_one)
  from neighbor_admitted_by_angle [OF 1 2 3 4 5 6] 8
  have "\<exists>st' lv'. visit demo_cfg 0 0 (1, 0) (seed_done, seed_locals) = Some (st', lv')
         \<and> label_mat st' ! nat (cell demo_cfg 1 0) = label_count seed_done
         \<and> queue_indX st' ! nat (queue_end_ind seed_locals) = 1
         \<and> queue_indY st' ! nat (queue_end_ind seed_locals) = 0
         \<and> queue_end_ind lv' = queue_end_ind seed_locals + 1
         \<and> queue_size lv' = queue_size seed_locals + 1"
    unfolding Let_def 7 by simp
  with 1 2 3 4 5 6 show ?thesis by blast
qed

section \<open>Ground classification\<close>

text \<open>
  Claim C5. \<^verbatim>\<open>GroundRemoval\<close> returns, and for every column \<open>j\<close> and every pair of
  rows \<open>i\<close> and \<open>i + 1\<close> with \<open>i < groundScanInd\<close>: if one of the two cells holds no
  return, the cell of row \<open>i\<close> ends marked \<open>-1\<close> and the pair changes nothing else;
  otherwise the slope angle is \<open>atan2 dz (sqrt (dx * dx + dy * dy))\<close> in degrees, and when
  it is within 10 degrees of the mount angle both cells are marked ground (1), and when it
  is not the pair marks neither cell. A cell therefore ends with the mark \<open>-1\<close> when its
  pair with the row above lacks a return, else with the mark 1 when its pair with the row
  above or its pair with the row below is level, else with the mark it had; no other cell
  of the ground matrix changes.
\<close>

theorem ground_rows_classified:
  assumes wf: "wf_state cfg st" and gs: "groundScanInd cfg < N_SCAN cfg"
  shows "(\<exists>st'. GroundRemoval cfg st = Some st' \<and> full_cloud st' = full_cloud st \<and>
           (\<forall>i < N_SCAN cfg. \<forall>j < HORIZON_SCAN cfg.
              ground_of cfg st' (i, j) =
                (if i < groundScanInd cfg
                    \<and> (no_return cfg st i j \<or> no_return cfg st (i + 1) j) then - 1
                 else if i < groundScanInd cfg \<and> level_pair cfg st i j then 1
                 else if 0 < i \<and> i - 1 < groundScanInd cfg \<and> level_pair cfg st (i - 1) j then 1
                 else ground_of cfg st (i, j))))
       \<and> (\<forall>i j. i < groundScanInd cfg \<and> j < HORIZON_SCAN cfg \<longrightarrow>
            (let lower = full_cloud st ! (j + i * HORIZON_SCAN cfg);
                 upper = full_cloud st ! (j + (i + 1) * HORIZON_SCAN cfg)
             in (no_return cfg st i j \<longleftrightarrow> IsNaN lower)
              \<and> (no_return cfg st (i + 1) j \<longleftrightarrow> IsNaN upper)
              \<and> (level_pair cfg st i j \<longleftrightarrow>
                   \<not> IsNaN lower \<and> \<not> IsNaN upper \<and>
                   \<bar>atan2 (pz (the upper) - pz (the lower))
                      (sqrt ((px (the upper) - px (the lower)) * (px (the upper) - px (the lower))
                           + (py (the upper) - py (the lower)) * (py (the upper) - py (the lower))))
                    * 180 / pi - sensor_mount_angle cfg\<bar> \<le> 10)
              \<and> (IsNaN lower \<or> IsNaN upper \<longrightarrow>
                   ground_pair cfg (i, j) st
                     = Some (st\<lparr>ground_mat := (ground_mat st)[i * HORIZON_SCAN cfg + j := -1]\<rparr>))
              \<and> (level_pair cfg st i j \<longrightarrow>
                   ground_pair cfg (i, j) st
                     = Some (st\<lparr>ground_mat := (ground_mat st)
                               [i * HORIZON_SCAN cfg + j := 1,
                                (i + 1) * HORIZON_SCAN cfg + j := 1]\<rparr>))
              \<and> (\<not> IsNaN lower \<and> \<not> IsNaN upper \<and> \<not> level_pair cfg st i j \<longrightarrow>
                   ground_pair cfg (i, j) st = Some st)))"
proof -
  from GroundRemoval_marks [OF wf gs] obtain st' where
    r: "GroundRemoval cfg st = Some st'" "full_cloud st' = full_cloud st"
    and m: "\<forall>c. snd c < HORIZON_SCAN cfg \<longrightarrow>
          ground_of cfg st' c = marks cfg st (set (cells cfg [0..<groundScanInd cfg])) c"
    by blast
  have a: "ground_of cfg st' (i, j) =
                (if i < groundScanInd cfg
                    \<and> (no_return cfg st i j \<or> no_return cfg st (i + 1) j) then - 1
                 else if i < groundScanInd cfg \<and> level_pair cfg st i j then 1
                 else if 0 < i \<and> i - 1 < groundScanInd cfg \<and> level_pair cfg st (i - 1) j then 1
                 else ground_of cfg st (i, j))" if "j < HORIZON_SCAN cfg" for i j
  proof -
    have "marks cfg st (set (cells cfg [0..<groundScanInd cfg])) (i, j) =
                (if i < groundScanInd cfg
                    \<and> (no_return cfg st i j \<or> no_return cfg st (i + 1) j) then - 1
                 else if i < groundScanInd cfg \<and> level_pair cfg st i j then 1
                 else if 0 < i \<and> i - 1 < groundScanInd cfg \<and> level_pair cfg st (i - 1) j then 1
                 else ground_of cfg st (i, j))"
      using that by (auto simp: marks_def cells_mem)
    moreover from m that have "ground_of cfg st' (i, j)
        = marks cfg st (set (cells cfg [0..<groundScanInd cfg])) (i, j)" by simp
    ultimately show ?thesis by (rule trans [rotated])
  qed
  have b: "let lower = full_cloud st ! (j + i * HORIZON_SCAN cfg);
                 upper = full_cloud st ! (j + (i + 1) * HORIZON_SCAN cfg)
             in (no_return cfg st i j \<longleftrightarrow> IsNaN lower)
              \<and> (no_return cfg st (i + 1) j \<longleftrightarrow> IsNaN upper)
              \<and> (level_pair cfg st i j \<longleftrightarrow>
                   \<not> IsNaN lower \<and> \<not> IsNaN upper \<and>
                   \<bar>atan2 (pz (the upper) - pz (the lower))
                      (sqrt ((px (the upper) - px (the lower)) * (px (the upper) - px (the lower))
                           + (py (the upper) - py (the lower)) * (py (the upper) - py (the lower))))
                    * 180 / pi - sensor_mount_angle cfg\<bar> \<le> 10)
              \<and> (IsNaN lower \<or> IsNaN upper \<longrightarrow>
                   ground_pair cfg (i, j) st
                     = Some (st\<lparr>ground_mat := (ground_mat st)[i * HORIZON_SCAN cfg + j := -1]\<rparr>))
              \<and> (level_pair cfg st i j \<longrightarrow>
                   ground_pair cfg (i, j) st
                     = Some (st\<lparr>ground_mat := (ground_mat st)
                               [i * HORIZON_SCAN cfg + j := 1,
                                (i + 1) * HORIZON_SCAN cfg + j := 1]\<rparr>))
              \<and> (\<not> IsNaN lower \<and> \<not> IsNaN upper \<and> \<not> level_pair cfg st i j \<longrightarrow>
                   ground_pair cfg (i, j) st = Some st)"
    if "i < groundScanInd cfg" "j < HORIZON_SCAN cfg" for i j
  proof -
    from that(1) gs have i: "i + 1 < N_SCAN cfg" by simp
    show ?thesis
      unfolding ground_pair_eq [OF wf i that(2)]
      by (auto simp: Let_def slope_angle_def no_return_def level_pair_def)
  qed
  from r a b show ?thesis by blast
qed

theorem ground_rows_classified_witness:
  "wf_state demo_cfg two_returns \<and> groundScanInd demo_cfg < N_SCAN demo_cfg
   \<and> (\<exists>st'. GroundRemoval demo_cfg two_returns = Some st'
         \<and> ground_of demo_cfg st' (0, 0) = 1 \<and> ground_of demo_cfg st' (1, 0) = 1
         \<and> ground_of demo_cfg st' (0, 1) = - 1 \<and> ground_of demo_cfg st' (1, 1) = 0
         \<and> ground_of demo_cfg st' (2, 0) = 0)
   \<and> map_option ground_mat (ground_pair demo_cfg (0, 0) two_returns)
       = Some [1, 0, 0, 0, 1, 0, 0, 0, 0, 0, 0, 0]
   \<and> map_option ground_mat (ground_pair demo_cfg (0, 1) two_returns)
       = Some [0, - 1, 0, 0, 0, 0, 0, 0, 0, 0, 0, 0]"
proof -
  have w: "wf_state demo_cfg two_returns"
    by (simp add: wf_state_def cells_total_def two_returns_def demo_blank_def)
  have s: "slope_angle \<lparr>px = 0, py = 1, pz = 0, intensity = 0\<rparr>
      \<lparr>px = 0, py = 2, pz = 0, intensity = 1\<rparr> = 0"
    by (simp add: slope_angle_def atan2_def)
  have n: "\<not> no_return demo_cfg two_returns 0 0" "\<not> no_return demo_cfg two_returns 1 0"
    "no_return demo_cfg two_returns 0 1" "no_return demo_cfg two_returns 1 1"
    "no_return demo_cfg two_returns 2 0"
    by (simp_all add: no_return_def two_returns_def IsNaN_def)
  have l: "level_pair demo_cfg two_returns 0 0" "\<not> level_pair demo_cfg two_returns 0 1"
    using n by (simp_all add: level_pair_def) (simp add: two_returns_def s)
  have g: "ground_of demo_cfg two_returns (1, 1) = 0" "ground_of demo_cfg two_returns (2, 0) = 0"
    by (simp_all add: ground_of_def two_returns_def)
  note t = ground_rows_classified [OF w, of]
  from t obtain st' where
    r: "GroundRemoval demo_cfg two_returns = Some st'"
    and c: "\<forall>i < N_SCAN demo_cfg. \<forall>j < HORIZON_SCAN demo_cfg.
              ground_of demo_cfg st' (i, j) =
                (if i < groundScanInd demo_cfg
                    \<and> (no_return demo_cfg two_returns i j \<or> no_return demo_cfg two_returns (i + 1) j)
                 then - 1
                 else if i < groundScanInd demo_cfg \<and> level_pair demo_cfg two_returns i j then 1
                 else if 0 < i \<and> i - 1 < groundScanInd demo_cfg
                         \<and> level_pair demo_cfg two_returns (i - 1) j then 1
                 else ground_of demo_cfg two_returns (i, j))"
    by auto
  from c [rule_format, of 0 0] c [rule_format, of 1 0] c [rule_format, of 0 1]
    c [rule_format, of 1 1] c [rule_format, of 2 0] n l g
  have 1: "ground_of demo_cfg st' (0, 0) = 1" "ground_of demo_cfg st' (1, 0) = 1"
    "ground_of demo_cfg st' (0, 1) = - 1" "ground_of demo_cfg st' (1, 1) = 0"
    "ground_of demo_cfg st' (2, 0) = 0"
    by simp_all
  have u: "(ground_mat two_returns)[0 := 1, 4 := 1] = [1, 0, 0, 0, 1, 0, 0, 0, 0, 0, 0, 0]"
    "(ground_mat two_returns)[Suc 0 := - 1] = [0, - 1, 0, 0, 0, 0, 0, 0, 0, 0, 0, 0]"
    by (simp_all add: two_returns_def)
  from t [THEN conjunct2, rule_format, of 0 0] l(1)
  have "ground_pair demo_cfg (0, 0) two_returns
      = Some (two_returns\<lparr>ground_mat := (ground_mat two_returns)[0 := 1, 4 := 1]\<rparr>)"
    by (simp add: Let_def)
  then have 2: "map_option ground_mat (ground_pair demo_cfg (0, 0) two_returns)
       = Some [1, 0, 0, 0, 1, 0, 0, 0, 0, 0, 0, 0]"
    by (simp add: u)
  have nan: "IsNaN (full_cloud two_returns ! 1)" by (simp add: two_returns_def IsNaN_def)
  from t [THEN conjunct2, rule_format, of 0 1] nan
  have "ground_pair demo_cfg (0, 1) two_returns
      = Some (two_returns\<lparr>ground_mat := (ground_mat two_returns)[1 := - 1]\<rparr>)"
    by (simp add: Let_def)
  then have 3: "map_option ground_mat (ground_pair demo_cfg (0, 1) two_returns)
       = Some [0, - 1, 0, 0, 0, 0, 0, 0, 0, 0, 0, 0]"
    by (simp add: u)
  from w r 1 2 3 show ?thesis by simp
qed

section \<open>Validation of the sweep\<close>



section \<open>Reset of the frame state\<close>

text \<open>
  Claim C8, as amended. \<^verbatim>\<open>ResetParameters\<close> leaves every cell of the range matrix at
  \<open>FLT_MAX\<close>, every cell of the ground matrix and of the label matrix at 0, the label
  counter at 1, the two input clouds and the ground, segmented, pure and outlier clouds
  empty, and every slot of the full cloud and of the full info cloud at the NaN point;
  this is the state of these fields after every frame that \<^verbatim>\<open>CloudHandler\<close> has
  processed. It does not touch the header of the frame, the segmentation info
  \<^verbatim>\<open>seg_msg\<close> and the four work arrays of the region growing: after a processed frame
  they hold what the segmentation of that frame left in them, which is also what was
  published.
\<close>

theorem reset_restores_frame_state:
  "initial_frame_state cfg (ResetParameters cfg st)
   \<and> length (full_cloud (ResetParameters cfg st)) = length (full_cloud st)
   \<and> length (full_info_cloud (ResetParameters cfg st)) = length (full_info_cloud st)
   \<and> (\<forall>st'. CloudHandler cfg st msg = Inr st' \<longrightarrow> initial_frame_state cfg st')
   \<and> cloud_header (ResetParameters cfg st) = cloud_header st
   \<and> seg_msg (ResetParameters cfg st) = seg_msg st
   \<and> queue_indX (ResetParameters cfg st) = queue_indX st
   \<and> queue_indY (ResetParameters cfg st) = queue_indY st
   \<and> all_pushed_indX (ResetParameters cfg st) = all_pushed_indX st
   \<and> all_pushed_indY (ResetParameters cfg st) = all_pushed_indY st
   \<and> published (ResetParameters cfg st) = published st
   \<and> (\<forall>st'. CloudHandler cfg st msg = Inr st' \<longrightarrow>
         (\<exists>st5. st' = ResetParameters cfg (PublishCloud st5)
            \<and> cloud_header st' = cloud_header st5 \<and> seg_msg st' = seg_msg st5
            \<and> queue_indX st' = queue_indX st5 \<and> queue_indY st' = queue_indY st5
            \<and> all_pushed_indX st' = all_pushed_indX st5
            \<and> all_pushed_indY st' = all_pushed_indY st5
            \<and> published st' = published st5 @
                 [Info_msg (cloud_header st5) (seg_msg st5),
                  Cloud_msg ''/outlier_cloud'' (cloud_header st5) (outlier_cloud st5),
                  Cloud_msg ''/segmented_cloud'' (cloud_header st5) (segmented_cloud st5),
                  Cloud_msg ''/full_cloud_projected'' (cloud_header st5) (full_cloud st5),
                  Cloud_msg ''/full_cloud_info'' (cloud_header st5) (full_info_cloud st5),
                  Cloud_msg ''/ground_cloud'' (cloud_header st5) (ground_cloud st5),
                  Cloud_msg ''/segmented_cloud_pure'' (cloud_header st5)
                    (segmented_cloud_pure st5)]))"
proof -
  have 1: "initial_frame_state cfg (ResetParameters cfg s)" for s
    by (simp add: initial_frame_state_def ResetParameters_def)
  have 2: "\<exists>s. st' = ResetParameters cfg (PublishCloud s)"
    if "CloudHandler cfg st msg = Inr st'" for st'
    using that
    by (auto simp: CloudHandler_def and_then_def defined_def split: sum.splits option.splits)
  have 3: "cloud_header (ResetParameters cfg s) = cloud_header s
     \<and> seg_msg (ResetParameters cfg s) = seg_msg s
     \<and> queue_indX (ResetParameters cfg s) = queue_indX s
     \<and> queue_indY (ResetParameters cfg s) = queue_indY s
     \<and> all_pushed_indX (ResetParameters cfg s) = all_pushed_indX s
     \<and> all_pushed_indY (ResetParameters cfg s) = all_pushed_indY s
     \<and> published (ResetParameters cfg s) = published s
     \<and> length (full_cloud (ResetParameters cfg s)) = length (full_cloud s)
     \<and> length (full_info_cloud (ResetParameters cfg s)) = length (full_info_cloud s)" for s
    by (simp add: ResetParameters_def)
  have 4: "\<exists>st5. st' = ResetParameters cfg (PublishCloud st5)
            \<and> cloud_header st' = cloud_header st5 \<and> seg_msg st' = seg_msg st5
            \<and> queue_indX st' = queue_indX st5 \<and> queue_indY st' = queue_indY st5
            \<and> all_pushed_indX st' = all_pushed_indX st5
            \<and> all_pushed_indY st' = all_pushed_indY st5
            \<and> published st' = published st5 @
                 [Info_msg (cloud_header st5) (seg_msg st5),
                  Cloud_msg ''/outlier_cloud'' (cloud_header st5) (outlier_cloud st5),
                  Cloud_msg ''/segmented_cloud'' (cloud_header st5) (segmented_cloud st5),
                  Cloud_msg ''/full_cloud_projected'' (cloud_header st5) (full_cloud st5),
                  Cloud_msg ''/full_cloud_info'' (cloud_header st5) (full_info_cloud st5),
                  Cloud_msg ''/ground_cloud'' (cloud_header st5) (ground_cloud st5),
                  Cloud_msg ''/segmented_cloud_pure'' (cloud_header st5)
                    (segmented_cloud_pure st5)]"
    if "CloudHandler cfg st msg = Inr st'" for st'
  proof -
    from 2 [OF that] obtain s where s: "st' = ResetParameters cfg (PublishCloud s)" by blast
    show ?thesis
      by (rule exI [of _ s]) (simp add: s 3 PublishCloud_def)
  qed
  from 1 2 have 5: "initial_frame_state cfg st'" if "CloudHandler cfg st msg = Inr st'" for st'
    using that by blast
  from 1 3 [of st] 4 5 show ?thesis by blast
qed

theorem reset_restores_frame_state_witness:
  "CloudHandler demo_cfg demo_blank lone_frame = Inr lone_done
   \<and> initial_frame_state demo_cfg lone_done
   \<and> seg_msg lone_done = seg_msg lone_segmented
   \<and> cloud_header lone_done = cloud_header lone_segmented
   \<and> (\<exists>st5. lone_done = ResetParameters demo_cfg (PublishCloud st5)
         \<and> seg_msg lone_done = seg_msg st5
         \<and> hd (published lone_done) = Info_msg (cloud_header st5) (seg_msg st5))"
proof -
  note t = reset_restores_frame_state [of demo_cfg "PublishCloud lone_segmented" lone_frame]
  note u = reset_restores_frame_state [of demo_cfg demo_blank lone_frame]
  from u lone_handler have 1: "initial_frame_state demo_cfg lone_done" by blast
  from t have "seg_msg lone_done = seg_msg (PublishCloud lone_segmented)"
    "cloud_header lone_done = cloud_header (PublishCloud lone_segmented)"
    unfolding lone_reset by blast+
  then have 2: "seg_msg lone_done = seg_msg lone_segmented"
    "cloud_header lone_done = cloud_header lone_segmented"
    by (simp_all add: PublishCloud_def)
  from u lone_handler obtain st5 where
    3: "lone_done = ResetParameters demo_cfg (PublishCloud st5)" "seg_msg lone_done = seg_msg st5"
    and p: "published lone_done = published st5 @
                 [Info_msg (cloud_header st5) (seg_msg st5),
                  Cloud_msg ''/outlier_cloud'' (cloud_header st5) (outlier_cloud st5),
                  Cloud_msg ''/segmented_cloud'' (cloud_header st5) (segmented_cloud st5),
                  Cloud_msg ''/full_cloud_projected'' (cloud_header st5) (full_cloud st5),
                  Cloud_msg ''/full_cloud_info'' (cloud_header st5) (full_info_cloud st5),
                  Cloud_msg ''/ground_cloud'' (cloud_header st5) (ground_cloud st5),
                  Cloud_msg ''/segmented_cloud_pure'' (cloud_header st5)
                    (segmented_cloud_pure st5)]"
    by blast
  have "length (published lone_done) = 7"
    by (simp add: lone_done_def PublishCloud_def lone_segmented_def lone_ground_def
        lone_projected_def lone_oriented_def lone_copied_def demo_blank_def)
  with p have "published st5 = []" by simp
  with p have 4: "hd (published lone_done) = Info_msg (cloud_header st5) (seg_msg st5)" by simp
  from lone_handler 1 2 3 4 show ?thesis by blast
qed

text \<open>
  The state \<open>demo_blank\<close> is as \<^verbatim>\<open>ResetParameters\<close> leaves it, with the header 0, an
  empty segmentation info and work arrays of zeros. After the frame \<open>lone_frame\<close> has
  been processed and \<^verbatim>\<open>ResetParameters\<close> has run, the state still holds the header 1 of
  that frame, its orientation span and ring indices in \<^verbatim>\<open>seg_msg\<close>, and the column 3 of
  its seed in the work queue: data of the frame persists into the next one.
\<close>

theorem frame_data_outlives_reset:
  "CloudHandler demo_cfg demo_blank lone_frame = Inr lone_done
   \<and> initial_frame_state demo_cfg demo_blank
   \<and> cloud_header demo_blank = 0 \<and> cloud_header lone_done = 1
   \<and> orientationDiff (seg_msg demo_blank) = 0 \<and> orientationDiff (seg_msg lone_done) = 2 * pi
   \<and> startRingIndex (seg_msg demo_blank) 0 = None
   \<and> startRingIndex (seg_msg lone_done) 0 = Some 4
   \<and> queue_indY demo_blank ! 0 = 0 \<and> queue_indY lone_done ! 0 = 3"
proof -
  have "initial_frame_state demo_cfg demo_blank"
    by (simp add: initial_frame_state_def demo_blank_def rep12 LABEL_INIT_def)
  with lone_handler show ?thesis by (simp add: lone_done_def demo_blank_def)
qed

section \<open>Projection\<close>

text \<open>
  Claim C10, as amended. In \<^verbatim>\<open>ProjectPointCloud\<close> a point whose row bucket or column
  bucket, once the conversion to the unsigned index has dropped its fractional part, is
  negative (a computed value of \<open>-1\<close> or less) and not below \<open>- 2 ^ 63\<close> is discarded and
  the state stays as it is, for grids of fewer than \<open>2 ^ 32\<close> rows and columns: the
  unsigned index is at least \<open>2 ^ 63\<close> and fails the upper bound, for the column also after
  the one subtraction. A computed row value strictly between \<open>-1\<close> and 0 is converted to
  the index 0, so such a point is not discarded for its row; the column value is a whole
  number, so a negative column value is always \<open>-1\<close> or less. A point that is not discarded
  writes the range matrix and the two dense clouds at a row below \<open>N_SCAN\<close> and a column
  below \<open>HORIZON_SCAN\<close>, at the index \<open>col + row * HORIZON_SCAN\<close>, which is below
  \<open>N_SCAN * HORIZON_SCAN\<close>; the projection of a whole frame never leaves a container.
\<close>

theorem negative_bucket_discarded:
  assumes wf: "wf_state cfg st"
    and i: "i < length (laser_cloud_in st)"
    and ring: "use_cloud_ring cfg \<longrightarrow> length (laser_cloud_in st) \<le> length (laser_cloud_in_ring st)"
    and n: "N_SCAN cfg < 2 ^ 32" "HORIZON_SCAN cfg < 2 ^ 32"
  shows "(\<not> use_cloud_ring cfg \<and> - (2 ^ 63) \<le> c_trunc (row_bucket cfg (laser_cloud_in st ! i))
            \<and> c_trunc (row_bucket cfg (laser_cloud_in st ! i)) < 0 \<longrightarrow>
          project_point cfg i st = Some st)
       \<and> (- (2 ^ 63) \<le> c_trunc (column_bucket cfg (laser_cloud_in st ! i))
            \<and> c_trunc (column_bucket cfg (laser_cloud_in st ! i)) < 0 \<longrightarrow>
          project_point cfg i st = Some st)
       \<and> (\<exists>st'. project_point cfg i st = Some st' \<and>
             (st' = st \<or>
              (\<exists>row col range p.
                 row < N_SCAN cfg \<and> col < HORIZON_SCAN cfg
                 \<and> col + row * HORIZON_SCAN cfg < N_SCAN cfg * HORIZON_SCAN cfg
                 \<and> st' = st\<lparr>range_mat := (range_mat st)[row * HORIZON_SCAN cfg + col := range],
                            full_cloud := (full_cloud st)[col + row * HORIZON_SCAN cfg := Some p],
                            full_info_cloud := (full_info_cloud st)
                              [col + row * HORIZON_SCAN cfg := Some (p\<lparr>intensity := range\<rparr>)]\<rparr>)))
       \<and> ProjectPointCloud cfg st \<noteq> None
       \<and> (- 1 < row_bucket cfg (laser_cloud_in st ! i)
            \<and> row_bucket cfg (laser_cloud_in st ! i) < 0 \<longrightarrow>
          c_trunc (row_bucket cfg (laser_cloud_in st ! i)) = 0
          \<and> to_size_t (row_bucket cfg (laser_cloud_in st ! i)) = 0)
       \<and> (c_trunc (column_bucket cfg (laser_cloud_in st ! i)) < 0
            \<longleftrightarrow> column_bucket cfg (laser_cloud_in st ! i) < 0)"
proof -
  define p where "p = laser_cloud_in st ! i"
  define r where "r = (if use_cloud_ring cfg then laser_cloud_in_ring st ! i
                       else to_size_t (row_bucket cfg p))"
  define c0 where "c0 = to_size_t (column_bucket cfg p)"
  define c where "c = (if c0 \<ge> HORIZON_SCAN cfg then c0 - HORIZON_SCAN cfg else c0)"
  define rg where "rg = sqrt (px p * px p + py p * py p + pz p * pz p)"
  from wf have len: "length (range_mat st) = cells_total cfg"
    "length (full_cloud st) = cells_total cfg" "length (full_info_cloud st) = cells_total cfg"
    by (simp_all add: wf_state_def)
  have rdp: "rd (laser_cloud_in st) (int i) = Some p"
    using i by (simp add: rd_def p_def)
  have rdr: "(if use_cloud_ring cfg then rd (laser_cloud_in_ring st) (int i)
                 else Some (to_size_t (row_bucket cfg p))) = Some r"
    using ring i by (auto simp: rd_def r_def)
  have skip: "project_point cfg i st = Some st" if "\<not> (r < N_SCAN cfg \<and> c < HORIZON_SCAN cfg)"
    using that
    by (auto simp: project_point_def rdp rdr Let_def c_def [symmetric] c0_def [symmetric])
  have big: "(2::nat) ^ 32 + 2 ^ 32 \<le> 2 ^ 63" by simp
  have row: "project_point cfg i st = Some st"
    if "\<not> use_cloud_ring cfg" "- (2 ^ 63) \<le> c_trunc (row_bucket cfg p)"
      "c_trunc (row_bucket cfg p) < 0"
  proof (rule skip)
    from to_size_t_negative [OF that(2,3)] that(1) have "2 ^ 63 \<le> r" by (simp add: r_def)
    with n(1) big show "\<not> (r < N_SCAN cfg \<and> c < HORIZON_SCAN cfg)" by linarith
  qed
  have col: "project_point cfg i st = Some st"
    if "- (2 ^ 63) \<le> c_trunc (column_bucket cfg p)" "c_trunc (column_bucket cfg p) < 0"
  proof (rule skip)
    from to_size_t_negative [OF that] have "2 ^ 63 \<le> c0" by (simp add: c0_def)
    with n(2) big have "HORIZON_SCAN cfg \<le> c" unfolding c_def by (simp split: if_splits)
    then show "\<not> (r < N_SCAN cfg \<and> c < HORIZON_SCAN cfg)" by simp
  qed
  have wr: "\<exists>st'. project_point cfg i st = Some st' \<and>
             (st' = st \<or>
              (\<exists>row col range p.
                 row < N_SCAN cfg \<and> col < HORIZON_SCAN cfg
                 \<and> col + row * HORIZON_SCAN cfg < N_SCAN cfg * HORIZON_SCAN cfg
                 \<and> st' = st\<lparr>range_mat := (range_mat st)[row * HORIZON_SCAN cfg + col := range],
                            full_cloud := (full_cloud st)[col + row * HORIZON_SCAN cfg := Some p],
                            full_info_cloud := (full_info_cloud st)
                              [col + row * HORIZON_SCAN cfg := Some (p\<lparr>intensity := range\<rparr>)]\<rparr>))"
  proof (cases "r < N_SCAN cfg \<and> c < HORIZON_SCAN cfg \<and> \<not> rg < sensor_minimum_range cfg")
    case True
    then have rc: "r < N_SCAN cfg" "c < HORIZON_SCAN cfg" by simp_all
    then have g: "in_grid cfg (int r) (int c)" by simp
    from cell_index_less [OF rc] have k: "c + r * HORIZON_SCAN cfg < cells_total cfg"
      by (simp add: add.commute)
    have w: "wr xs (int c + int r * int (HORIZON_SCAN cfg)) v
        = Some (xs[c + r * HORIZON_SCAN cfg := v])" if "length xs = cells_total cfg"
      for xs :: "point option list" and v
    proof -
      have "wr xs (int (c + r * HORIZON_SCAN cfg)) v = Some (xs[c + r * HORIZON_SCAN cfg := v])"
        using k that unfolding wr_def by (simp del: of_nat_add of_nat_mult)
      then show ?thesis by simp
    qed
    have "project_point cfg i st = Some (st\<lparr>range_mat := (range_mat st)[r * HORIZON_SCAN cfg + c := rg],
        full_cloud := (full_cloud st)[c + r * HORIZON_SCAN cfg
           := Some (p\<lparr>intensity := real r + real c / 10000\<rparr>)],
        full_info_cloud := (full_info_cloud st)[c + r * HORIZON_SCAN cfg
           := Some (p\<lparr>intensity := rg\<rparr>)]\<rparr>)"
      using True
      by (simp add: project_point_def rdp rdr Let_def c_def [symmetric] c0_def [symmetric]
          rg_def [symmetric] mat_set_eq [OF g len(1)] w [OF len(2)] w [OF len(3)])
    moreover have "(p\<lparr>intensity := real r + real c / 10000\<rparr>)\<lparr>intensity := rg\<rparr>
        = p\<lparr>intensity := rg\<rparr>" by simp
    ultimately show ?thesis using rc k unfolding cells_total_def by metis
  next
    case False
    then have "project_point cfg i st = Some st"
      by (auto simp: project_point_def rdp rdr Let_def c_def [symmetric] c0_def [symmetric]
          rg_def [symmetric])
    then show ?thesis by simp
  qed
  from ProjectPointCloud_spec [OF wf ring] have "ProjectPointCloud cfg st \<noteq> None" by auto
  moreover have "c_trunc (row_bucket cfg p) = 0 \<and> to_size_t (row_bucket cfg p) = 0"
    if "- 1 < row_bucket cfg p" "row_bucket cfg p < 0"
    using that to_size_t_fraction [OF that] by (simp add: c_trunc_def ceiling_eq_iff)
  moreover have "c_trunc (column_bucket cfg p) < 0 \<longleftrightarrow> column_bucket cfg p < 0"
    by (rule column_bucket_whole)
  ultimately show ?thesis using row col wr unfolding p_def by blast
qed


theorem negative_bucket_discarded_witness:
  "wf_state steep_cfg one_low \<and> (0::nat) < length (laser_cloud_in one_low)
   \<and> \<not> use_cloud_ring steep_cfg \<and> N_SCAN steep_cfg < 2 ^ 32 \<and> HORIZON_SCAN steep_cfg < 2 ^ 32
   \<and> c_trunc (row_bucket steep_cfg (laser_cloud_in one_low ! 0)) = - 15
   \<and> project_point steep_cfg 0 one_low = Some one_low
   \<and> ProjectPointCloud steep_cfg one_low \<noteq> None
   \<and> wf_state fine_cfg one_behind \<and> (0::nat) < length (laser_cloud_in one_behind)
   \<and> N_SCAN fine_cfg < 2 ^ 32 \<and> HORIZON_SCAN fine_cfg < 2 ^ 32
   \<and> c_trunc (column_bucket fine_cfg (laser_cloud_in one_behind ! 0)) = - 88
   \<and> project_point fine_cfg 0 one_behind = Some one_behind
   \<and> wf_state shallow_cfg one_low \<and> - 1 < row_bucket shallow_cfg (laser_cloud_in one_low ! 0)
   \<and> row_bucket shallow_cfg (laser_cloud_in one_low ! 0) < 0
   \<and> to_size_t (row_bucket shallow_cfg (laser_cloud_in one_low ! 0)) = 0"
proof -
  have w: "wf_state steep_cfg one_low"
    by (simp add: wf_state_def cells_total_def one_low_def demo_blank_def steep_cfg_def)
  have i: "0 < length (laser_cloud_in one_low)" by (simp add: one_low_def)
  have r: "\<not> use_cloud_ring steep_cfg" by (simp add: steep_cfg_def)
  have n: "N_SCAN steep_cfg < 2 ^ 32" "HORIZON_SCAN steep_cfg < 2 ^ 32"
    by (simp_all add: steep_cfg_def)
  have b: "c_trunc (row_bucket steep_cfg (laser_cloud_in one_low ! 0)) = - 15"
    by (simp add: one_low_def low_point_bucket c_trunc_def)
  from negative_bucket_discarded [OF w i _ n] r b
  have 1: "project_point steep_cfg 0 one_low = Some one_low"
    "ProjectPointCloud steep_cfg one_low \<noteq> None"
    by simp_all
  have w': "wf_state fine_cfg one_behind"
    by (simp add: wf_state_def cells_total_def one_behind_def demo_blank_def fine_cfg_def)
  have i': "0 < length (laser_cloud_in one_behind)" by (simp add: one_behind_def)
  have r': "\<not> use_cloud_ring fine_cfg" by (simp add: fine_cfg_def)
  have n': "N_SCAN fine_cfg < 2 ^ 32" "HORIZON_SCAN fine_cfg < 2 ^ 32"
    by (simp_all add: fine_cfg_def)
  have b': "c_trunc (column_bucket fine_cfg (laser_cloud_in one_behind ! 0)) = - 88"
    by (simp add: one_behind_def behind_point_column c_trunc_def)
  from negative_bucket_discarded [OF w' i' _ n'] r' b'
  have 2: "project_point fine_cfg 0 one_behind = Some one_behind"
    by simp
  have w'': "wf_state shallow_cfg one_low"
    by (simp add: wf_state_def cells_total_def one_low_def demo_blank_def shallow_cfg_def)
  have r'': "\<not> use_cloud_ring shallow_cfg" by (simp add: shallow_cfg_def)
  have n'': "N_SCAN shallow_cfg < 2 ^ 32" "HORIZON_SCAN shallow_cfg < 2 ^ 32"
    by (simp_all add: shallow_cfg_def)
  have b'': "row_bucket shallow_cfg (laser_cloud_in one_low ! 0) = - (1 / 2)"
    by (simp add: one_low_def low_point_shallow)
  from negative_bucket_discarded [OF w'' i _ n''] r'' b''
  have 3: "to_size_t (row_bucket shallow_cfg (laser_cloud_in one_low ! 0)) = 0"
    by simp
  from w i r n b 1 w' i' n' b' 2 w'' b'' 3 show ?thesis by simp
qed

text \<open>
  For the sensor \<open>shallow_cfg\<close> the return \<open>low_point\<close> has the negative row value
  \<open>-1/2\<close>, which the conversion turns into the index 0: the point is not discarded, it
  is written into row 0, column 3.
\<close>

theorem fraction_below_zero_written:
  "row_bucket shallow_cfg low_point = - (1 / 2)
   \<and> to_size_t (row_bucket shallow_cfg low_point) = 0
   \<and> range_mat one_low ! 3 = FLT_MAX \<and> full_cloud one_low ! 3 = nan_point
   \<and> map_option (\<lambda>s. (range_mat s ! 3, full_cloud s ! 3)) (project_point shallow_cfg 0 one_low)
       = Some (sqrt 2, Some (low_point\<lparr>intensity := 3 / 10000\<rparr>))"
proof -
  have t: "to_size_t (- (1 / 2)) = 0" by (rule to_size_t_fraction) simp_all
  have c: "to_size_t 3 = 3" by (simp add: to_size_t_def c_trunc_def)
  have f: "N_SCAN shallow_cfg = 3" "HORIZON_SCAN shallow_cfg = 4"
    "\<not> use_cloud_ring shallow_cfg" "sensor_minimum_range shallow_cfg = 1"
    by (simp_all add: shallow_cfg_def)
  have rdp: "rd (laser_cloud_in one_low) (int 0) = Some low_point"
    by (simp add: rd_def one_low_def)
  have rg: "sqrt (px low_point * px low_point + py low_point * py low_point
      + pz low_point * pz low_point) = sqrt 2"
    by (simp add: low_point_def)
  have p: "project_point shallow_cfg 0 one_low
      = Some (one_low\<lparr>range_mat := (range_mat one_low)[3 := sqrt 2],
           full_cloud := (full_cloud one_low)[3 := Some (low_point\<lparr>intensity := 3 / 10000\<rparr>)],
           full_info_cloud := (full_info_cloud one_low)
             [3 := Some (low_point\<lparr>intensity := sqrt 2\<rparr>)]\<rparr>)"
    unfolding project_point_def rdp
    by (simp add: f rg low_point_shallow low_point_column t c Let_def
        wr_def mat_set_def in_grid_def cell_def one_low_def demo_blank_def)
  show ?thesis
    unfolding p by (simp add: low_point_shallow t one_low_def demo_blank_def)
qed

end
